theory Spec2Isabelle
  imports Main "HOL-Library.Word"
begin

section \<open>Runtime containers used by \<open>init/lean/environment.lean\<close>\<close>

text \<open>
  The development embeds \<open>library/init/lean/environment.lean\<close> together with the
  specialised container code that the compiler emitted for it (the Lean compiler
  output of module \<open>init.lean.environment\<close>, which holds the instances of
  \<open>SMap\<close>, \<open>HashMapImp\<close>, \<open>AssocList\<close> and \<open>RBNode\<close> that the environment uses).
  Names (\<open>Name\<close>) are a type parameter \<open>'n\<close>; their hash
  (\<open>lean_name_hash_usize\<close>, read as a natural number), their quick order
  \<open>Name.quickLt\<close> and their printer are external and are passed as arguments.
  Name equality (\<open>lean_name_dec_eq\<close>) is HOL equality.
\<close>

subsection \<open>Arrays\<close>

text \<open>
  Modelled from the spec: the array primitives are part of the runtime
  (\<open>runtime/object.h\<close>) and of \<open>init.data.array\<close>, outside the sources at hand;
  only their calls are.  Arrays are lists.  Indexing is tolerant: reading out of
  range yields the inhabitant passed by the caller, and an update out of range
  returns the array as it is.

  \<open>lean::array_get(default, a, i)\<close>: the element at \<open>i\<close>, or the given inhabitant
  when \<open>i\<close> is out of range.
\<close>

definition Array_get :: "'a \<Rightarrow> 'a list \<Rightarrow> nat \<Rightarrow> 'a" where
  "Array_get dflt a i = (if i < length a then a ! i else dflt)"

text \<open>\<open>lean::array_set(a, i, v)\<close>: out of range the array is returned as it is.\<close>

definition Array_set :: "'a list \<Rightarrow> nat \<Rightarrow> 'a \<Rightarrow> 'a list" where
  "Array_set a i v = (if i < length a then a[i := v] else a)"

text \<open>\<open>Array.modify\<close>, with the bounds test the compiled code performs.\<close>

definition Array_modify :: "'a list \<Rightarrow> nat \<Rightarrow> ('a \<Rightarrow> 'a) \<Rightarrow> 'a list" where
  "Array_modify a i f = (if i < length a then a[i := f (a ! i)] else a)"

definition Array_push :: "'a list \<Rightarrow> 'a \<Rightarrow> 'a list" where
  "Array_push a v = a @ [v]"

text \<open>
  \<open>Array.iterate a b f\<close> runs over the array from index \<open>0\<close> upwards and passes
  the index, the element and the accumulator to \<open>f\<close>.
\<close>

fun Array_iterateAux :: "(nat \<Rightarrow> 'a \<Rightarrow> 'b \<Rightarrow> 'b) \<Rightarrow> nat \<Rightarrow> 'a list \<Rightarrow> 'b \<Rightarrow> 'b" where
  "Array_iterateAux f i [] b = b"
| "Array_iterateAux f i (x # xs) b = Array_iterateAux f (Suc i) xs (f i x b)"

definition Array_iterate :: "'a list \<Rightarrow> 'b \<Rightarrow> (nat \<Rightarrow> 'a \<Rightarrow> 'b \<Rightarrow> 'b) \<Rightarrow> 'b" where
  "Array_iterate a b f = Array_iterateAux f 0 a b"

text \<open>\<open>Array.any\<close>.\<close>

definition Array_any :: "'a list \<Rightarrow> ('a \<Rightarrow> bool) \<Rightarrow> bool" where
  "Array_any a p = list_ex p a"

subsection \<open>Thunks\<close>

text \<open>
  Modelled from the spec: \<open>Thunk\<close> is a type of the core library.  A \<open>Thunk \<sigma>\<close>
  is a deferred, memoised computation; forcing it is application to the unit
  value, and the memoisation is not observable in the result.
\<close>

type_synonym 's Thunk = "unit \<Rightarrow> 's"

definition Thunk_mk :: "(unit \<Rightarrow> 's) \<Rightarrow> 's Thunk" where
  "Thunk_mk f = f"

definition Thunk_pure :: "'s \<Rightarrow> 's Thunk" where
  "Thunk_pure a = (\<lambda>_. a)"

definition Thunk_get :: "'s Thunk \<Rightarrow> 's" where
  "Thunk_get t = t ()"

section \<open>Environment and raw extensions\<close>

subsection \<open>Association lists and the hash map \<open>HashMapImp\<close>\<close>

type_synonym ('a, 'b) AssocList = "('a \<times> 'b) list"

fun AssocList_contains :: "'a \<Rightarrow> ('a, 'b) AssocList \<Rightarrow> bool" where
  "AssocList_contains a [] = False"
| "AssocList_contains a ((k, v) # es) = (if k = a then True else AssocList_contains a es)"

fun AssocList_find :: "'a \<Rightarrow> ('a, 'b) AssocList \<Rightarrow> 'b option" where
  "AssocList_find a [] = None"
| "AssocList_find a ((k, v) # es) = (if k = a then Some v else AssocList_find a es)"

fun AssocList_replace :: "'a \<Rightarrow> 'b \<Rightarrow> ('a, 'b) AssocList \<Rightarrow> ('a, 'b) AssocList" where
  "AssocList_replace a b [] = []"
| "AssocList_replace a b ((k, v) # es) =
     (if k = a then (a, b) # es else (k, v) # AssocList_replace a b es)"

record ('a, 'b) HashMapImp =
  hsize :: nat
  buckets :: "('a, 'b) AssocList list"

text \<open>
  Modelled from the spec: \<open>mkHashMapImp\<close> is only declared in the compiled unit.
  It makes the empty table of \<open>nbuckets\<close> chains (never of none); the compiled
  environment code passes 8.
\<close>

definition mkHashMapImp :: "nat \<Rightarrow> ('a, 'b) HashMapImp" where
  "mkHashMapImp nbuckets =
     (let n = (if nbuckets = 0 then 8 else nbuckets)
      in \<lparr> hsize = 0, buckets = replicate n [] \<rparr>)"

text \<open>
  \<open>reinsertAux\<close>, folded over one source bucket (\<open>AssocList.foldl\<close>): every entry is
  put in front of the target bucket selected by its hash.
\<close>

fun AssocList_foldl_reinsert ::
  "('a \<Rightarrow> nat) \<Rightarrow> ('a, 'b) AssocList list \<Rightarrow> ('a, 'b) AssocList \<Rightarrow> ('a, 'b) AssocList list" where
  "AssocList_foldl_reinsert hash target [] = target"
| "AssocList_foldl_reinsert hash target ((k, v) # es) =
     (let i = hash k mod length target
      in AssocList_foldl_reinsert hash (target[i := (k, v) # (target ! i)]) es)"

function HashMapImp_moveEntries ::
  "('a \<Rightarrow> nat) \<Rightarrow> nat \<Rightarrow> ('a, 'b) AssocList list \<Rightarrow> ('a, 'b) AssocList list
     \<Rightarrow> ('a, 'b) AssocList list" where
  "HashMapImp_moveEntries hash i source target =
     (if i < length source
      then let es = source ! i;
               source' = source[i := []];
               target' = AssocList_foldl_reinsert hash target es
           in HashMapImp_moveEntries hash (i + 1) source' target'
      else target)"
  by pat_completeness auto
termination
  by (relation "measure (\<lambda>(hash, i, source, target). length source - i)") auto

declare HashMapImp_moveEntries.simps [simp del]

definition HashMapImp_expand ::
  "('a \<Rightarrow> nat) \<Rightarrow> nat \<Rightarrow> ('a, 'b) AssocList list \<Rightarrow> ('a, 'b) HashMapImp" where
  "HashMapImp_expand hash sz bkts =
     (let nbNew = length bkts * 2;
          newBuckets = replicate nbNew []
      in \<lparr> hsize = sz, buckets = HashMapImp_moveEntries hash 0 bkts newBuckets \<rparr>)"

definition HashMapImp_find :: "('a \<Rightarrow> nat) \<Rightarrow> ('a, 'b) HashMapImp \<Rightarrow> 'a \<Rightarrow> 'b option" where
  "HashMapImp_find hash m a =
     (let i = hash a mod length (buckets m)
      in AssocList_find a (buckets m ! i))"

definition HashMapImp_insert ::
  "('a \<Rightarrow> nat) \<Rightarrow> ('a, 'b) HashMapImp \<Rightarrow> 'a \<Rightarrow> 'b \<Rightarrow> ('a, 'b) HashMapImp" where
  "HashMapImp_insert hash m a b =
     (let i = hash a mod length (buckets m);
          bkt = buckets m ! i
      in if AssocList_contains a bkt
         then \<lparr> hsize = hsize m, buckets = (buckets m)[i := AssocList_replace a b bkt] \<rparr>
         else let size' = hsize m + 1;
                  buckets' = (buckets m)[i := (a, b) # bkt]
              in if size' \<le> length (buckets m)
                 then \<lparr> hsize = size', buckets = buckets' \<rparr>
                 else HashMapImp_expand hash size' buckets')"

subsection \<open>Red-black trees \<open>RBNode\<close>\<close>

datatype color = red | black

datatype ('a, 'b) RBNode = leaf | node color "('a, 'b) RBNode" 'a 'b "('a, 'b) RBNode"

text \<open>
  Modelled from the spec: \<open>RBNode.isRed\<close> and \<open>RBNode.setBlack\<close> are called by
  the compiled insertion but only declared there; the index is a red-black tree,
  so they test for a red root and blacken the root.
\<close>

fun RBNode_isRed :: "('a, 'b) RBNode \<Rightarrow> bool" where
  "RBNode_isRed (node red l k v r) = True"
| "RBNode_isRed t = False"

fun RBNode_setBlack :: "('a, 'b) RBNode \<Rightarrow> ('a, 'b) RBNode" where
  "RBNode_setBlack (node c l k v r) = node black l k v r"
| "RBNode_setBlack leaf = leaf"

text \<open>
  The two rebalancing steps.  The compiled \<open>RBNode.ins\<close> carries them inline as
  decision trees over the freshly inserted subtree; the cases are tried in this
  order.
\<close>

fun RBNode_balance1 :: "('a, 'b) RBNode \<Rightarrow> ('a, 'b) RBNode \<Rightarrow> ('a, 'b) RBNode" where
  "RBNode_balance1 (node c0 a0 kv vv t) (node c1 (node red l kx vx r1) ky vy r2) =
     node red (node black l kx vx r1) ky vy (node black r2 kv vv t)"
| "RBNode_balance1 (node c0 a0 kv vv t) (node c1 l1 ky vy (node red l2 kx vx r)) =
     node red (node black l1 ky vy l2) kx vx (node black r kv vv t)"
| "RBNode_balance1 (node c0 a0 kv vv t) (node c1 l ky vy r) =
     node black (node red l ky vy r) kv vv t"
| "RBNode_balance1 t1 t2 = leaf"

fun RBNode_balance2 :: "('a, 'b) RBNode \<Rightarrow> ('a, 'b) RBNode \<Rightarrow> ('a, 'b) RBNode" where
  "RBNode_balance2 (node c0 t kv vv b0) (node c1 (node red l kx1 vx1 r1) ky vy r2) =
     node red (node black t kv vv l) kx1 vx1 (node black r1 ky vy r2)"
| "RBNode_balance2 (node c0 t kv vv b0) (node c1 l1 ky vy (node red l2 kx vx r2)) =
     node red (node black t kv vv l1) ky vy (node black l2 kx vx r2)"
| "RBNode_balance2 (node c0 t kv vv b0) (node c1 l ky vy r) =
     node black t kv vv (node red l ky vy r)"
| "RBNode_balance2 t1 t2 = leaf"

fun RBNode_ins :: "('a \<Rightarrow> 'a \<Rightarrow> bool) \<Rightarrow> ('a, 'b) RBNode \<Rightarrow> 'a \<Rightarrow> 'b \<Rightarrow> ('a, 'b) RBNode" where
  "RBNode_ins lt leaf kx vx = node red leaf kx vx leaf"
| "RBNode_ins lt (node red a ky vy b) kx vx =
     (if lt kx ky then node red (RBNode_ins lt a kx vx) ky vy b
      else if lt ky kx then node red a ky vy (RBNode_ins lt b kx vx)
      else node red a kx vx b)"
| "RBNode_ins lt (node black a ky vy b) kx vx =
     (if lt kx ky then
        (if RBNode_isRed a then RBNode_balance1 (node black leaf ky vy b) (RBNode_ins lt a kx vx)
         else node black (RBNode_ins lt a kx vx) ky vy b)
      else if lt ky kx then
        (if RBNode_isRed b then RBNode_balance2 (node black a ky vy leaf) (RBNode_ins lt b kx vx)
         else node black a ky vy (RBNode_ins lt b kx vx))
      else node black a kx vx b)"

definition RBNode_insert :: "('a \<Rightarrow> 'a \<Rightarrow> bool) \<Rightarrow> ('a, 'b) RBNode \<Rightarrow> 'a \<Rightarrow> 'b \<Rightarrow> ('a, 'b) RBNode" where
  "RBNode_insert lt t k v =
     (if RBNode_isRed t then RBNode_setBlack (RBNode_ins lt t k v) else RBNode_ins lt t k v)"

fun RBNode_find :: "('a \<Rightarrow> 'a \<Rightarrow> bool) \<Rightarrow> ('a, 'b) RBNode \<Rightarrow> 'a \<Rightarrow> 'b option" where
  "RBNode_find lt leaf x = None"
| "RBNode_find lt (node c a ky vy b) x =
     (if lt x ky then RBNode_find lt a x
      else if lt ky x then RBNode_find lt b x
      else Some vy)"

subsection \<open>The staged map \<open>SMap\<close>\<close>

text \<open>
  An \<open>SMap\<close> is filled in two stages: while \<open>stage1\<close> holds, insertions go to the
  hash map \<open>map1\<close>; after \<open>switch\<close> they go to the red-black tree \<open>map2\<close>, and
  lookups try the tree first and the hash map next.
\<close>

record ('a, 'b) SMap =
  stage1 :: bool
  map1 :: "('a, 'b) HashMapImp"
  map2 :: "('a, 'b) RBNode"

definition SMap_empty :: "('a, 'b) SMap" where
  "SMap_empty = \<lparr> stage1 = True, map1 = mkHashMapImp 8, map2 = leaf \<rparr>"

definition SMap_insert ::
  "('a \<Rightarrow> nat) \<Rightarrow> ('a \<Rightarrow> 'a \<Rightarrow> bool) \<Rightarrow> ('a, 'b) SMap \<Rightarrow> 'a \<Rightarrow> 'b \<Rightarrow> ('a, 'b) SMap" where
  "SMap_insert hash lt m k v =
     (if stage1 m
      then \<lparr> stage1 = True, map1 = HashMapImp_insert hash (map1 m) k v, map2 = map2 m \<rparr>
      else \<lparr> stage1 = False, map1 = map1 m, map2 = RBNode_insert lt (map2 m) k v \<rparr>)"

definition SMap_find ::
  "('a \<Rightarrow> nat) \<Rightarrow> ('a \<Rightarrow> 'a \<Rightarrow> bool) \<Rightarrow> ('a, 'b) SMap \<Rightarrow> 'a \<Rightarrow> 'b option" where
  "SMap_find hash lt m k =
     (if stage1 m
      then HashMapImp_find hash (map1 m) k
      else (case RBNode_find lt (map2 m) k of
              None \<Rightarrow> HashMapImp_find hash (map1 m) k
            | Some v \<Rightarrow> Some v))"

definition SMap_switch :: "('a, 'b) SMap \<Rightarrow> ('a, 'b) SMap" where
  "SMap_switch m =
     (if stage1 m then \<lparr> stage1 = False, map1 = map1 m, map2 = map2 m \<rparr> else m)"

subsection \<open>Declarations and the environment\<close>

text \<open>
  Modelled from the spec: \<open>ConstantInfo\<close> is declared in \<open>init.lean.declaration\<close>,
  which is not part of the sources at hand.  A declaration record is opaque to the
  environment beyond exposing a name.
\<close>

record ('n, 'p) ConstantInfo =
  ConstantInfo_name :: 'n
  ConstantInfo_payload :: 'p

type_synonym ModuleIdx = nat

record ('n, 'p, 'x) Environment =
  const2ModIdx :: "('n, ModuleIdx) HashMapImp"
  constants :: "('n, ('n, 'p) ConstantInfo) SMap"
  extensions :: "'x list"
  trustLevel :: "32 word"
  quotInit :: bool
  env_imports :: "'n list"

definition Environment_add ::
  "('n \<Rightarrow> nat) \<Rightarrow> ('n \<Rightarrow> 'n \<Rightarrow> bool) \<Rightarrow> ('n, 'p, 'x) Environment \<Rightarrow> ('n, 'p) ConstantInfo
     \<Rightarrow> ('n, 'p, 'x) Environment" where
  "Environment_add hash lt env cinfo =
     env\<lparr> constants := SMap_insert hash lt (constants env) (ConstantInfo_name cinfo) cinfo \<rparr>"

definition Environment_find ::
  "('n \<Rightarrow> nat) \<Rightarrow> ('n \<Rightarrow> 'n \<Rightarrow> bool) \<Rightarrow> ('n, 'p, 'x) Environment \<Rightarrow> 'n
     \<Rightarrow> ('n, 'p) ConstantInfo option" where
  "Environment_find hash lt env n = SMap_find hash lt (constants env) n"

definition Environment_contains ::
  "('n \<Rightarrow> nat) \<Rightarrow> ('n \<Rightarrow> 'n \<Rightarrow> bool) \<Rightarrow> ('n, 'p, 'x) Environment \<Rightarrow> 'n \<Rightarrow> bool" where
  "Environment_contains hash lt env n = (SMap_find hash lt (constants env) n \<noteq> None)"

definition Environment_switch :: "('n, 'p, 'x) Environment \<Rightarrow> ('n, 'p, 'x) Environment" where
  "Environment_switch env = env\<lparr> constants := SMap_switch (constants env) \<rparr>"

definition Environment_markQuotInit :: "('n, 'p, 'x) Environment \<Rightarrow> ('n, 'p, 'x) Environment" where
  "Environment_markQuotInit env = env\<lparr> quotInit := True \<rparr>"

definition Environment_isQuotInit :: "('n, 'p, 'x) Environment \<Rightarrow> bool" where
  "Environment_isQuotInit env = quotInit env"

definition Environment_getTrustLevel :: "('n, 'p, 'x) Environment \<Rightarrow> 32 word" where
  "Environment_getTrustLevel env = trustLevel env"

definition Environment_getModuleIdxFor ::
  "('n \<Rightarrow> nat) \<Rightarrow> ('n, 'p, 'x) Environment \<Rightarrow> 'n \<Rightarrow> ModuleIdx option" where
  "Environment_getModuleIdxFor hash env c = HashMapImp_find hash (const2ModIdx env) c"

subsection \<open>Raw environment extensions\<close>

text \<open>
  The extension array of an environment is type-erased (\<open>EnvExtensionState\<close> is a
  \<open>void *\<close>) and \<open>unsafeCast\<close> is the identity on the stored object.  The model
  keeps one payload type \<open>'x\<close> for all slots.

  Reading a slot that does not exist: the compiled \<open>getStateUnsafe\<close> passes
  \<open>EnvExtensionState.Inhabited\<close>, which is \<open>NonScalar.Inhabited\<close>, to \<open>array_get\<close>
  and casts the object it gets back to the state type of the extension.  That
  object is no state of the extension, and a field read on it (\<open>cnstr_get\<close>) has no
  defined result.  \<open>getState\<close> is therefore \<open>None\<close> when the extension has no slot in
  the environment, and \<open>Some\<close> of the stored state when it has one.
\<close>

record 'x EnvExtension =
  idx :: nat
  initial :: 'x

definition EnvExtension_setState ::
  "'x EnvExtension \<Rightarrow> ('n, 'p, 'x) Environment \<Rightarrow> 'x \<Rightarrow> ('n, 'p, 'x) Environment" where
  "EnvExtension_setState ext env s = env\<lparr> extensions := Array_set (extensions env) (idx ext) s \<rparr>"

definition EnvExtension_getState ::
  "'x EnvExtension \<Rightarrow> ('n, 'p, 'x) Environment \<Rightarrow> 'x option" where
  "EnvExtension_getState ext env =
     (if idx ext < length (extensions env) then Some (extensions env ! idx ext) else None)"

definition EnvExtension_modifyState ::
  "'x EnvExtension \<Rightarrow> ('n, 'p, 'x) Environment \<Rightarrow> ('x \<Rightarrow> 'x) \<Rightarrow> ('n, 'p, 'x) Environment" where
  "EnvExtension_modifyState ext env f =
     env\<lparr> extensions := Array_modify (extensions env) (idx ext) f \<rparr>"

section \<open>Persistent extensions\<close>

record ('a, 's) PersistentEnvExtensionState =
  importedEntries :: "'a list list"
  importedState :: "'s Thunk"
  entries :: "'a list"
  state :: "'s option"

record ('n, 'a, 's) PersistentEnvExtension =
  toEnvExtension :: "(('a, 's) PersistentEnvExtensionState) EnvExtension"
  name :: 'n
  someVal :: 'a
  addEntryFn :: "bool \<Rightarrow> 's \<Rightarrow> 'a \<Rightarrow> 's"
  toArrayFn :: "'a list \<Rightarrow> 'a list"
  lazy :: bool

text \<open>
  The readers of a persistent extension take a field of the state that the raw
  \<open>getState\<close> returns; without a slot there is no state to read a field of, and
  they are \<open>None\<close> as well.
\<close>

definition PersistentEnvExtension_getEntries ::
  "('n, 'a, 's) PersistentEnvExtension
     \<Rightarrow> ('m, 'p, ('a, 's) PersistentEnvExtensionState) Environment \<Rightarrow> 'a list option" where
  "PersistentEnvExtension_getEntries ext env =
     (case EnvExtension_getState (toEnvExtension ext) env of
        None \<Rightarrow> None
      | Some s \<Rightarrow> Some (entries s))"

definition PersistentEnvExtension_getModuleEntries ::
  "('n, 'a, 's) PersistentEnvExtension
     \<Rightarrow> ('m, 'p, ('a, 's) PersistentEnvExtensionState) Environment \<Rightarrow> ModuleIdx
     \<Rightarrow> 'a list option" where
  "PersistentEnvExtension_getModuleEntries ext env m =
     (case EnvExtension_getState (toEnvExtension ext) env of
        None \<Rightarrow> None
      | Some s \<Rightarrow> Some (Array_get [] (importedEntries s) m))"

definition PersistentEnvExtension_addEntry ::
  "('n, 'a, 's) PersistentEnvExtension
     \<Rightarrow> ('m, 'p, ('a, 's) PersistentEnvExtensionState) Environment \<Rightarrow> 'a
     \<Rightarrow> ('m, 'p, ('a, 's) PersistentEnvExtensionState) Environment" where
  "PersistentEnvExtension_addEntry ext env a =
     EnvExtension_modifyState (toEnvExtension ext) env
       (\<lambda>s. let entries' = a # entries s
            in case state s of
                 None \<Rightarrow> s\<lparr> entries := entries' \<rparr>
               | Some d \<Rightarrow> s\<lparr> entries := entries', state := Some (addEntryFn ext False d a) \<rparr>)"

definition PersistentEnvExtension_forceStateAux ::
  "('n, 'a, 's) PersistentEnvExtension \<Rightarrow> ('a, 's) PersistentEnvExtensionState \<Rightarrow> 's" where
  "PersistentEnvExtension_forceStateAux ext s =
     (case state s of
        Some d \<Rightarrow> d
      | None \<Rightarrow> foldr (\<lambda>a s. addEntryFn ext False s a) (entries s) (Thunk_get (importedState s)))"

definition PersistentEnvExtension_forceState ::
  "('n, 'a, 's) PersistentEnvExtension
     \<Rightarrow> ('m, 'p, ('a, 's) PersistentEnvExtensionState) Environment
     \<Rightarrow> ('m, 'p, ('a, 's) PersistentEnvExtensionState) Environment" where
  "PersistentEnvExtension_forceState ext env =
     EnvExtension_modifyState (toEnvExtension ext) env
       (\<lambda>s. s\<lparr> state := Some (PersistentEnvExtension_forceStateAux ext s) \<rparr>)"

definition PersistentEnvExtension_getState ::
  "('n, 'a, 's) PersistentEnvExtension
     \<Rightarrow> ('m, 'p, ('a, 's) PersistentEnvExtensionState) Environment \<Rightarrow> 's option" where
  "PersistentEnvExtension_getState ext env =
     (case EnvExtension_getState (toEnvExtension ext) env of
        None \<Rightarrow> None
      | Some s \<Rightarrow> Some (PersistentEnvExtension_forceStateAux ext s))"

section \<open>The extension registries\<close>

text \<open>
  \<open>IO\<close> actions are functions of the process state they read and write: the
  \<open>initializing\<close> flag of the runtime and the two global references
  \<open>envExtensionsRef\<close> and \<open>persistentEnvExtensionsRef\<close>.  A thrown
  \<open>IO.userError\<close> is the left summand of the result.  Both registries are
  type-erased in the source; here their payload is the state of a persistent
  extension.  An action that only reads the state returns its result alone.
\<close>

datatype IO_Error = userError string

record ('n, 'a, 's) World =
  initializing :: bool
  envExtensionsRef :: "(('a, 's) PersistentEnvExtensionState) EnvExtension list"
  persistentEnvExtensionsRef :: "('n, 'a, 's) PersistentEnvExtension list"

definition registerEnvExtensionUnsafe ::
  "('a, 's) PersistentEnvExtensionState \<Rightarrow> ('n, 'a, 's) World
     \<Rightarrow> (IO_Error + (('a, 's) PersistentEnvExtensionState) EnvExtension) \<times> ('n, 'a, 's) World" where
  "registerEnvExtensionUnsafe initState w =
     (if \<not> initializing w
      then (Inl (userError
             ''Failed to register environment, extensions can only be registered during initialization''), w)
      else let exts = envExtensionsRef w;
               idx' = length exts;
               ext = \<lparr> idx = idx', initial = initState \<rparr>
           in (Inr ext, w\<lparr> envExtensionsRef := Array_push (envExtensionsRef w) ext \<rparr>))"

definition mkInitialExtensionStates ::
  "('n, 'a, 's) World \<Rightarrow> ('a, 's) PersistentEnvExtensionState list" where
  "mkInitialExtensionStates w = map (\<lambda>ext. initial ext) (envExtensionsRef w)"

definition mkEmptyEnvironment ::
  "32 word \<Rightarrow> ('n, 'a, 's) World
     \<Rightarrow> IO_Error + ('m, 'p, ('a, 's) PersistentEnvExtensionState) Environment" where
  "mkEmptyEnvironment trustLevel' w =
     (if initializing w
      then Inl (userError ''Environment objects cannot be created during initialization'')
      else let exts = mkInitialExtensionStates w
           in Inr \<lparr> const2ModIdx = mkHashMapImp 8,
                    constants = SMap_empty,
                    extensions = exts,
                    trustLevel = trustLevel',
                    quotInit = False,
                    env_imports = [] \<rparr>)"

record ('n, 'a, 's) PersistentEnvExtensionDescr =
  descr_name :: 'n
  descr_initState :: 's
  descr_someVal :: 'a
  descr_addEntryFn :: "bool \<Rightarrow> 's \<Rightarrow> 'a \<Rightarrow> 's"
  descr_toArrayFn :: "'a list \<Rightarrow> 'a list"
  descr_lazy :: bool

definition registerPersistentEnvExtensionUnsafe ::
  "('n \<Rightarrow> string) \<Rightarrow> ('n, 'a, 's) PersistentEnvExtensionDescr \<Rightarrow> ('n, 'a, 's) World
     \<Rightarrow> (IO_Error + ('n, 'a, 's) PersistentEnvExtension) \<times> ('n, 'a, 's) World" where
  "registerPersistentEnvExtensionUnsafe toString descr w =
     (let s = \<lparr> importedEntries = [],
                importedState = Thunk_pure (descr_initState descr),
                entries = [],
                state = Some (descr_initState descr) \<rparr>;
          pExts = persistentEnvExtensionsRef w
      in if Array_any pExts (\<lambda>ext. name ext = descr_name descr)
         then (Inl (userError (''invalid environment extension, '' @ [CHR 0x27]
                      @ toString (descr_name descr) @ [CHR 0x27] @ '' has already been used'')), w)
         else case registerEnvExtensionUnsafe s w of
                (Inl e, w') \<Rightarrow> (Inl e, w')
              | (Inr ext, w') \<Rightarrow>
                  (let pExt = \<lparr> toEnvExtension = ext,
                                name = descr_name descr,
                                someVal = descr_someVal descr,
                                addEntryFn = descr_addEntryFn descr,
                                toArrayFn = descr_toArrayFn descr,
                                lazy = descr_lazy descr \<rparr>
                   in (Inr pExt,
                       w'\<lparr> persistentEnvExtensionsRef :=
                             Array_push (persistentEnvExtensionsRef w') pExt \<rparr>)))"

section \<open>Module data and import\<close>

type_synonym ByteArray = "8 word list"

record ('n, 'p, 'a) ModuleData =
  mod_imports :: "'n list"
  mod_constants :: "('n, 'p) ConstantInfo list"
  mod_entries :: "('n \<times> 'a list) list"
  mod_serialized :: ByteArray

text \<open>
  \<open>importModulesAux\<close> is a \<open>partial def\<close>: nothing bounds its recursion, so the
  model is a partial function whose value \<open>None\<close> stands for a run that does not
  return.  The collaborators \<open>findOLean\<close> and \<open>readModuleData\<close> are arguments.

  Modelled from the spec: \<open>NameSet\<close> (with \<open>contains\<close> and \<open>insert\<close>) is declared
  in \<open>init.lean.name\<close>, outside the sources at hand; it is the set of visited
  module names.
\<close>

partial_function (option) importModulesAux ::
  "('n \<Rightarrow> IO_Error + string) \<Rightarrow> (string \<Rightarrow> IO_Error + ('n, 'p, 'a) ModuleData) \<Rightarrow> 'n list
     \<Rightarrow> 'n set \<times> ('n, 'p, 'a) ModuleData list
     \<Rightarrow> (IO_Error + 'n set \<times> ('n, 'p, 'a) ModuleData list) option" where
  "importModulesAux findOLean readModuleData ms r =
     (case ms of
        [] \<Rightarrow> Some (Inr r)
      | m # ms' \<Rightarrow>
          (case r of (s, mods) \<Rightarrow>
             if m \<in> s then importModulesAux findOLean readModuleData ms' (s, mods)
             else (let s' = insert m s
                   in (case findOLean m of
                         Inl e \<Rightarrow> Some (Inl e)
                       | Inr mFile \<Rightarrow>
                           (case readModuleData mFile of
                              Inl e \<Rightarrow> Some (Inl e)
                            | Inr md \<Rightarrow>
                                Option.bind
                                  (importModulesAux findOLean readModuleData (mod_imports md) (s', mods))
                                  (\<lambda>res. (case res of
                                            Inl e \<Rightarrow> Some (Inl e)
                                          | Inr (s'', mods') \<Rightarrow>
                                              importModulesAux findOLean readModuleData ms'
                                                (s'', Array_push mods' md))))))))"

function getEntriesFor :: "('n, 'p, 'a) ModuleData \<Rightarrow> 'n \<Rightarrow> nat \<Rightarrow> 'a list" where
  "getEntriesFor md extId i =
     (if i < length (mod_entries md)
      then let curr = mod_entries md ! i
           in if fst curr = extId then snd curr else getEntriesFor md extId (i + 1)
      else [])"
  by pat_completeness auto
termination
  by (relation "measure (\<lambda>(md, extId, i). length (mod_entries md) - i)") auto

declare getEntriesFor.simps [simp del]

definition setImportedEntries ::
  "('n, 'a, 's) World \<Rightarrow> ('m, 'q, ('a, 's) PersistentEnvExtensionState) Environment
     \<Rightarrow> ('n, 'p, 'a) ModuleData list
     \<Rightarrow> ('m, 'q, ('a, 's) PersistentEnvExtensionState) Environment" where
  "setImportedEntries w env mods =
     (let pExtDescrs = persistentEnvExtensionsRef w
      in Array_iterate mods env (\<lambda>_ md env.
           Array_iterate pExtDescrs env (\<lambda>_ extDescr env.
             let entries' = getEntriesFor md (name extDescr) 0
             in EnvExtension_modifyState (toEnvExtension extDescr) env
                  (\<lambda>s. s\<lparr> importedEntries := Array_push (importedEntries s) entries' \<rparr>))))"

definition mkImportedStateThunk ::
  "'a list list \<Rightarrow> 's \<Rightarrow> (bool \<Rightarrow> 's \<Rightarrow> 'a \<Rightarrow> 's) \<Rightarrow> 's Thunk" where
  "mkImportedStateThunk entries' initial' addEntryFn' =
     Thunk_mk (\<lambda>_. Array_iterate entries' initial' (\<lambda>_ entries'' s.
                     Array_iterate entries'' s (\<lambda>_ entry s. addEntryFn' True s entry)))"

definition finalizePersistentExtensions ::
  "('n, 'a, 's) World \<Rightarrow> ('m, 'q, ('a, 's) PersistentEnvExtensionState) Environment
     \<Rightarrow> ('m, 'q, ('a, 's) PersistentEnvExtensionState) Environment" where
  "finalizePersistentExtensions w env =
     (let pExtDescrs = persistentEnvExtensionsRef w
      in Array_iterate pExtDescrs env (\<lambda>_ extDescr env.
           EnvExtension_modifyState (toEnvExtension extDescr) env
             (\<lambda>s. let importedState' =
                        mkImportedStateThunk (importedEntries s)
                          (Thunk_get (importedState (initial (toEnvExtension extDescr))))
                          (addEntryFn extDescr)
                  in s\<lparr> importedState := importedState',
                        entries := [],
                        state := (if lazy extDescr then None
                                  else Some (Thunk_get importedState')) \<rparr>)))"




section \<open>Specification-level notions\<close>

subsection \<open>Well-formed declaration indexes\<close>

text \<open>
  The key order of the tree is external (\<open>Name.quickLt\<close>); what the index needs
  of it is that it is a strict total order, so that keys equal under the order
  are identical names.  \<open>RBNode_ordered\<close> is the search-tree property that every
  \<open>RBMap\<close> carries in its type.
\<close>

definition strictTotalOrder :: "('a \<Rightarrow> 'a \<Rightarrow> bool) \<Rightarrow> bool" where
  "strictTotalOrder lt =
     ((\<forall>a. \<not> lt a a) \<and> (\<forall>a b c. lt a b \<and> lt b c \<longrightarrow> lt a c)
      \<and> (\<forall>a b. lt a b \<or> lt b a \<or> a = b))"

fun RBNode_all :: "('a \<Rightarrow> bool) \<Rightarrow> ('a, 'b) RBNode \<Rightarrow> bool" where
  "RBNode_all P leaf = True"
| "RBNode_all P (node c l k v r) = (P k \<and> RBNode_all P l \<and> RBNode_all P r)"

fun RBNode_ordered :: "('a \<Rightarrow> 'a \<Rightarrow> bool) \<Rightarrow> ('a, 'b) RBNode \<Rightarrow> bool" where
  "RBNode_ordered lt leaf = True"
| "RBNode_ordered lt (node c l k v r) =
     (RBNode_all (\<lambda>x. lt x k) l \<and> RBNode_all (\<lambda>x. lt k x) r
      \<and> RBNode_ordered lt l \<and> RBNode_ordered lt r)"

subsection \<open>The import graph\<close>

text \<open>
  Loading a module is resolving its file and reading it.  A module that loads has
  an edge to each of its imports; the transitive import closure of a root list is
  what these edges reach from the roots.  \<open>importPost\<close> and \<open>importRun\<close> describe
  one call of \<open>importModulesAux\<close> on pending names \<open>ms\<close> with visited set \<open>s\<close>:
  it either fails with the error of a module reachable from \<open>ms\<close>, or appends
  the modules of new names.
\<close>

definition loadModule ::
  "('n \<Rightarrow> IO_Error + string) \<Rightarrow> (string \<Rightarrow> IO_Error + ('n, 'p, 'a) ModuleData) \<Rightarrow> 'n
     \<Rightarrow> IO_Error + ('n, 'p, 'a) ModuleData" where
  "loadModule findOLean readModuleData m =
     (case findOLean m of Inl e \<Rightarrow> Inl e | Inr mFile \<Rightarrow> readModuleData mFile)"

definition moduleOf ::
  "('n \<Rightarrow> IO_Error + string) \<Rightarrow> (string \<Rightarrow> IO_Error + ('n, 'p, 'a) ModuleData) \<Rightarrow> 'n
     \<Rightarrow> ('n, 'p, 'a) ModuleData" where
  "moduleOf findOLean readModuleData m = projr (loadModule findOLean readModuleData m)"

definition importEdges ::
  "('n \<Rightarrow> IO_Error + string) \<Rightarrow> (string \<Rightarrow> IO_Error + ('n, 'p, 'a) ModuleData)
     \<Rightarrow> ('n \<times> 'n) set" where
  "importEdges findOLean readModuleData =
     {(m, d). \<exists>md. loadModule findOLean readModuleData m = Inr md \<and> d \<in> set (mod_imports md)}"

definition importClosure ::
  "('n \<Rightarrow> IO_Error + string) \<Rightarrow> (string \<Rightarrow> IO_Error + ('n, 'p, 'a) ModuleData) \<Rightarrow> 'n list
     \<Rightarrow> 'n set" where
  "importClosure findOLean readModuleData roots =
     (importEdges findOLean readModuleData)\<^sup>* `` set roots"

definition importPost ::
  "('n \<Rightarrow> IO_Error + string) \<Rightarrow> (string \<Rightarrow> IO_Error + ('n, 'p, 'a) ModuleData) \<Rightarrow> 'n set
     \<Rightarrow> 'n list \<Rightarrow> 'n set \<Rightarrow> 'n list \<Rightarrow> bool" where
  "importPost F R V ms s new =
     (distinct new \<and> set new \<inter> s = {} \<and> set ms \<subseteq> s \<union> set new
      \<and> set new \<subseteq> (importEdges F R)\<^sup>* `` set ms
      \<and> (\<forall>x \<in> set new. \<exists>md. loadModule F R x = Inr md \<and> set (mod_imports md) \<subseteq> s \<union> set new)
      \<and> (acyclic (importEdges F R \<inter> V \<times> V) \<longrightarrow>
           (\<forall>i < length new. set (mod_imports (moduleOf F R (new ! i))) \<subseteq> s \<union> set (take i new))))"

definition importRun ::
  "('n \<Rightarrow> IO_Error + string) \<Rightarrow> (string \<Rightarrow> IO_Error + ('n, 'p, 'a) ModuleData) \<Rightarrow> 'n set
     \<Rightarrow> 'n list \<Rightarrow> 'n set \<Rightarrow> ('n, 'p, 'a) ModuleData list \<Rightarrow> bool" where
  "importRun F R V ms s mods =
     ((\<exists>e m. importModulesAux F R ms (s, mods) = Some (Inl e)
           \<and> m \<in> (importEdges F R)\<^sup>* `` set ms \<and> loadModule F R m = Inl e)
      \<or> (\<exists>new. importModulesAux F R ms (s, mods)
                  = Some (Inr (s \<union> set new, mods @ map (moduleOf F R) new))
              \<and> importPost F R V ms s new))"

subsection \<open>The aggregate of a persistent extension\<close>

text \<open>
  The fold of the specification, \<open>fold(addEntryFn, A, [e1..en])\<close>: \<open>addEntryFn\<close>
  with \<open>isImported = false\<close> applied to the entries from the oldest to the
  newest.  The code computes the aggregate otherwise: \<open>forceStateAux\<close> folds the
  stored list from the right, and \<open>addEntry\<close> advances a cached value.
\<close>

definition foldEntries :: "('n, 'a, 's) PersistentEnvExtension \<Rightarrow> 's \<Rightarrow> 'a list \<Rightarrow> 's" where
  "foldEntries ext A es = foldl (addEntryFn ext False) A es"

text \<open>
  The invariant of the cached aggregate: when \<open>state\<close> is present, it is the fold
  of the imported aggregate with the current entries, oldest first.
\<close>

definition cachedStateInv ::
  "('n, 'a, 's) PersistentEnvExtension \<Rightarrow> ('a, 's) PersistentEnvExtensionState \<Rightarrow> bool" where
  "cachedStateInv ext s =
     (case state s of
        None \<Rightarrow> True
      | Some d \<Rightarrow> d = foldEntries ext (Thunk_get (importedState s)) (rev (entries s)))"

text \<open>
  The state updates that \<open>addEntry\<close> and \<open>forceState\<close> hand to \<open>modifyState\<close>,
  named for use in proofs.
\<close>

definition addEntryStep ::
  "('n, 'a, 's) PersistentEnvExtension \<Rightarrow> 'a \<Rightarrow> ('a, 's) PersistentEnvExtensionState
     \<Rightarrow> ('a, 's) PersistentEnvExtensionState" where
  "addEntryStep ext a s =
     (let entries' = a # entries s
      in case state s of
           None \<Rightarrow> s\<lparr> entries := entries' \<rparr>
         | Some d \<Rightarrow> s\<lparr> entries := entries', state := Some (addEntryFn ext False d a) \<rparr>)"

definition forceStep ::
  "('n, 'a, 's) PersistentEnvExtension \<Rightarrow> ('a, 's) PersistentEnvExtensionState
     \<Rightarrow> ('a, 's) PersistentEnvExtensionState" where
  "forceStep ext s = s\<lparr> state := Some (PersistentEnvExtension_forceStateAux ext s) \<rparr>"

text \<open>
  A client of one extension interleaves additions with calls that force or read
  the aggregate.  \<open>getState\<close> returns a value and leaves the environment as it is.
\<close>

datatype 'a ExtOp = OpAddEntry 'a | OpForceState | OpGetState

fun applyOp ::
  "('n, 'a, 's) PersistentEnvExtension
     \<Rightarrow> ('m, 'p, ('a, 's) PersistentEnvExtensionState) Environment \<Rightarrow> 'a ExtOp
     \<Rightarrow> ('m, 'p, ('a, 's) PersistentEnvExtensionState) Environment" where
  "applyOp ext env (OpAddEntry a) = PersistentEnvExtension_addEntry ext env a"
| "applyOp ext env OpForceState = PersistentEnvExtension_forceState ext env"
| "applyOp ext env OpGetState = env"

fun addedEntries :: "'a ExtOp list \<Rightarrow> 'a list" where
  "addedEntries [] = []"
| "addedEntries (OpAddEntry a # ops) = a # addedEntries ops"
| "addedEntries (OpForceState # ops) = addedEntries ops"
| "addedEntries (OpGetState # ops) = addedEntries ops"

subsection \<open>Reachable registries and environments\<close>

text \<open>
  The registries start empty in the initialization phase and change by
  registration only; the runtime ends the initialization phase once.
\<close>

inductive World_reachable :: "('n, 'a, 's) World \<Rightarrow> bool" where
  start: "World_reachable \<lparr> initializing = True, envExtensionsRef = [],
                            persistentEnvExtensionsRef = [] \<rparr>"
| registerRaw: "World_reachable w \<Longrightarrow> registerEnvExtensionUnsafe s w = (r, w')
                 \<Longrightarrow> World_reachable w'"
| registerPersistent:
    "World_reachable w \<Longrightarrow> registerPersistentEnvExtensionUnsafe toString descr w = (r', w')
       \<Longrightarrow> World_reachable w'"
| initialized: "World_reachable w \<Longrightarrow> World_reachable (w\<lparr> initializing := False \<rparr>)"

text \<open>
  Environments over a registry: the empty environment, the environment that
  \<open>importModules\<close> finalizes, and what \<open>addEntry\<close> and \<open>forceState\<close> of registered
  persistent extensions make of them.
\<close>

inductive Env_reachable ::
  "('n, 'a, 's) World \<Rightarrow> ('n, 'p, ('a, 's) PersistentEnvExtensionState) Environment \<Rightarrow> bool"
  for w :: "('n, 'a, 's) World" where
  empty: "mkEmptyEnvironment t w = Inr env \<Longrightarrow> Env_reachable w env"
| imported: "extensions env = mkInitialExtensionStates w
       \<Longrightarrow> Env_reachable w (finalizePersistentExtensions w
                               (setImportedEntries w env (mods :: ('n, 'p, 'a) ModuleData list)))"
| addEntry: "Env_reachable w env \<Longrightarrow> ext \<in> set (persistentEnvExtensionsRef w)
       \<Longrightarrow> Env_reachable w (PersistentEnvExtension_addEntry ext env a)"
| forceState: "Env_reachable w env \<Longrightarrow> ext \<in> set (persistentEnvExtensionsRef w)
       \<Longrightarrow> Env_reachable w (PersistentEnvExtension_forceState ext env)"

definition World_inv :: "('n, 'a, 's) World \<Rightarrow> bool" where
  "World_inv w =
     ((\<forall>p \<in> set (persistentEnvExtensionsRef w).
          idx (toEnvExtension p) < length (envExtensionsRef w)
        \<and> envExtensionsRef w ! idx (toEnvExtension p) = toEnvExtension p
        \<and> cachedStateInv p (initial (toEnvExtension p)))
      \<and> distinct (map (\<lambda>p. idx (toEnvExtension p)) (persistentEnvExtensionsRef w)))"

definition Env_inv ::
  "('n, 'a, 's) World \<Rightarrow> ('m, 'p, ('a, 's) PersistentEnvExtensionState) Environment \<Rightarrow> bool" where
  "Env_inv w env =
     (length (extensions env) = length (envExtensionsRef w)
      \<and> (\<forall>p \<in> set (persistentEnvExtensionsRef w).
            cachedStateInv p (extensions env ! idx (toEnvExtension p))))"

text \<open>The message of the duplicate-name failure.\<close>

definition duplicateNameError :: "('n \<Rightarrow> string) \<Rightarrow> 'n \<Rightarrow> IO_Error" where
  "duplicateNameError toString n =
     userError (''invalid environment extension, '' @ [CHR 0x27] @ toString n @ [CHR 0x27]
                @ '' has already been used'')"

subsection \<open>A concrete extension\<close>

text \<open>
  The extension \<open>X\<close> of the specification's scenario: names, entries and the
  aggregate are natural numbers, the aggregate starts at \<open>0\<close> and the fold step
  adds the entry.
\<close>

definition scenarioToString :: "nat \<Rightarrow> string" where
  "scenarioToString n = ''X''"

definition scenarioAdd :: "bool \<Rightarrow> nat \<Rightarrow> nat \<Rightarrow> nat" where
  "scenarioAdd isImported acc n = acc + n"

definition scenarioDescr :: "(nat, nat, nat) PersistentEnvExtensionDescr" where
  "scenarioDescr = \<lparr> descr_name = 0, descr_initState = 0, descr_someVal = 0,
      descr_addEntryFn = scenarioAdd, descr_toArrayFn = id, descr_lazy = True \<rparr>"

definition scenarioState :: "(nat, nat) PersistentEnvExtensionState" where
  "scenarioState = \<lparr> importedEntries = [], importedState = Thunk_pure 0, entries = [],
      state = Some 0 \<rparr>"

definition scenarioExt :: "(nat, nat, nat) PersistentEnvExtension" where
  "scenarioExt = \<lparr> toEnvExtension = \<lparr> idx = 0, initial = scenarioState \<rparr>,
      name = 0, someVal = 0, addEntryFn = scenarioAdd, toArrayFn = id, lazy = True \<rparr>"

definition startWorld :: "(nat, nat, nat) World" where
  "startWorld = \<lparr> initializing = True, envExtensionsRef = [], persistentEnvExtensionsRef = [] \<rparr>"

definition frozenWorld :: "(nat, nat, nat) World" where
  "frozenWorld = \<lparr> initializing = False, envExtensionsRef = [], persistentEnvExtensionsRef = [] \<rparr>"

definition scenarioWorld :: "(nat, nat, nat) World" where
  "scenarioWorld = \<lparr> initializing = False, envExtensionsRef = [toEnvExtension scenarioExt],
      persistentEnvExtensionsRef = [scenarioExt] \<rparr>"

definition scenarioEnv :: "(nat, nat, (nat, nat) PersistentEnvExtensionState) Environment" where
  "scenarioEnv = \<lparr> const2ModIdx = mkHashMapImp 8, constants = SMap_empty,
      extensions = [scenarioState], trustLevel = 0, quotInit = False, env_imports = [] \<rparr>"

definition scenarioModule :: "(nat, nat, nat) ModuleData" where
  "scenarioModule = \<lparr> mod_imports = [], mod_constants = [], mod_entries = [(1, [7])],
      mod_serialized = [] \<rparr>"

definition declA1 :: "(nat, nat) ConstantInfo" where
  "declA1 = \<lparr> ConstantInfo_name = 5, ConstantInfo_payload = 1 \<rparr>"

definition declA2 :: "(nat, nat) ConstantInfo" where
  "declA2 = \<lparr> ConstantInfo_name = 5, ConstantInfo_payload = 2 \<rparr>"

text \<open>
  A diamond of modules: \<open>2\<close> and \<open>3\<close> import \<open>4\<close>; the file of module \<open>m\<close> has
  a name of length \<open>m\<close>.  In the broken variant the file of \<open>4\<close> is missing.
\<close>

definition diamondModule :: "nat list \<Rightarrow> (nat, nat, nat) ModuleData" where
  "diamondModule imps = \<lparr> mod_imports = imps, mod_constants = [], mod_entries = [],
      mod_serialized = [] \<rparr>"

definition diamondFind :: "nat \<Rightarrow> IO_Error + string" where
  "diamondFind m = Inr (replicate m (CHR ''m''))"

definition diamondRead :: "string \<Rightarrow> IO_Error + (nat, nat, nat) ModuleData" where
  "diamondRead f =
     (if length f = 2 \<or> length f = 3 then Inr (diamondModule [4])
      else if length f = 4 then Inr (diamondModule [])
      else Inl (userError ''cannot read module data''))"




section \<open>Properties of persistent extensions\<close>

subsection \<open>Auxiliary facts\<close>

lemma foldr_addEntry_foldl:
  "foldr (\<lambda>a s. f s a) es A = foldl f A (rev es)"
  by (induction es) auto

lemma forceStateAux_inv:
  "cachedStateInv ext s \<Longrightarrow>
   PersistentEnvExtension_forceStateAux ext s
     = foldEntries ext (Thunk_get (importedState s)) (rev (entries s))"
  by (auto simp: cachedStateInv_def PersistentEnvExtension_forceStateAux_def foldEntries_def
      foldr_addEntry_foldl split: option.splits)

lemma getState_Some_iff:
  "EnvExtension_getState ext env = Some st \<longleftrightarrow>
     idx ext < length (extensions env) \<and> extensions env ! idx ext = st"
  by (auto simp: EnvExtension_getState_def)

lemma getState_modifyState:
  "EnvExtension_getState ext (EnvExtension_modifyState ext env f)
     = map_option f (EnvExtension_getState ext env)"
  by (simp add: EnvExtension_getState_def EnvExtension_modifyState_def Array_modify_def)

lemma length_modifyState [simp]:
  "length (extensions (EnvExtension_modifyState ext env f)) = length (extensions env)"
  by (simp add: EnvExtension_modifyState_def Array_modify_def)

lemma length_applyOp [simp]:
  "length (extensions (applyOp ext env op)) = length (extensions env)"
  by (cases op) (simp_all add: PersistentEnvExtension_addEntry_def PersistentEnvExtension_forceState_def)

lemma addEntry_alt:
  "PersistentEnvExtension_addEntry ext env a =
   EnvExtension_modifyState (toEnvExtension ext) env (addEntryStep ext a)"
  by (simp add: PersistentEnvExtension_addEntry_def addEntryStep_def[abs_def])

lemma addEntryStep_inv:
  "cachedStateInv ext s \<Longrightarrow> cachedStateInv ext (addEntryStep ext a s)"
  by (auto simp: cachedStateInv_def addEntryStep_def foldEntries_def Let_def split: option.splits)

lemma addEntryStep_fields [simp]:
  "entries (addEntryStep ext a s) = a # entries s"
  "importedState (addEntryStep ext a s) = importedState s"
  "importedEntries (addEntryStep ext a s) = importedEntries s"
  by (auto simp: addEntryStep_def Let_def split: option.splits)

lemma forceState_alt:
  "PersistentEnvExtension_forceState ext env =
   EnvExtension_modifyState (toEnvExtension ext) env (forceStep ext)"
  by (simp add: PersistentEnvExtension_forceState_def forceStep_def[abs_def])

lemma forceStep_inv:
  "cachedStateInv ext s \<Longrightarrow> cachedStateInv ext (forceStep ext s)"
  using forceStateAux_inv[of ext s]
  by (simp add: cachedStateInv_def forceStep_def)

lemma forceStep_fields [simp]:
  "entries (forceStep ext s) = entries s"
  "importedState (forceStep ext s) = importedState s"
  "importedEntries (forceStep ext s) = importedEntries s"
  by (auto simp: forceStep_def)

lemma applyOp_state:
  assumes "EnvExtension_getState (toEnvExtension ext) env = Some st"
    and "cachedStateInv ext st"
  shows "\<exists>st'. EnvExtension_getState (toEnvExtension ext) (applyOp ext env op) = Some st'
    \<and> cachedStateInv ext st'
    \<and> importedState st' = importedState st
    \<and> entries st' = rev (addedEntries [op]) @ entries st"
  using assms
  by (cases op) (simp_all add: addEntry_alt forceState_alt getState_modifyState
      addEntryStep_inv forceStep_inv)

lemma addedEntries_append: "addedEntries (xs @ ys) = addedEntries xs @ addedEntries ys"
  by (induction xs rule: addedEntries.induct) auto

lemma run_ops_state:
  assumes "EnvExtension_getState (toEnvExtension ext) env = Some st"
    and "cachedStateInv ext st"
  shows "\<exists>st'. EnvExtension_getState (toEnvExtension ext) (foldl (applyOp ext) env ops) = Some st'
    \<and> cachedStateInv ext st'
    \<and> importedState st' = importedState st
    \<and> entries st' = rev (addedEntries ops) @ entries st"
  using assms
proof (induction ops arbitrary: env st)
  case Nil
  then show ?case by simp
next
  case (Cons op ops)
  from applyOp_state[OF Cons.prems, of op] obtain st1 where
    s1: "EnvExtension_getState (toEnvExtension ext) (applyOp ext env op) = Some st1"
    and i1: "cachedStateInv ext st1"
    and f1: "importedState st1 = importedState st"
      "entries st1 = rev (addedEntries [op]) @ entries st"
    by blast
  from Cons.IH[OF s1 i1] obtain st' where
    s2: "EnvExtension_getState (toEnvExtension ext) (foldl (applyOp ext) (applyOp ext env op) ops)
           = Some st'"
    and i2: "cachedStateInv ext st'"
    and f2: "importedState st' = importedState st1"
      "entries st' = rev (addedEntries ops) @ entries st1"
    by blast
  have "addedEntries (op # ops) = addedEntries [op] @ addedEntries ops"
    using addedEntries_append[of "[op]" ops] by simp
  with s2 i2 f1 f2 show ?case by simp
qed

lemma scenario_registration:
  "registerPersistentEnvExtensionUnsafe scenarioToString scenarioDescr startWorld
     = (Inr scenarioExt, scenarioWorld\<lparr> initializing := True \<rparr>)"
  by (simp add: registerPersistentEnvExtensionUnsafe_def registerEnvExtensionUnsafe_def
      scenarioDescr_def startWorld_def scenarioExt_def scenarioWorld_def Array_any_def
      Array_push_def scenarioState_def Let_def)

lemma scenario_empty_environment: "mkEmptyEnvironment 0 scenarioWorld = Inr scenarioEnv"
  by (simp add: mkEmptyEnvironment_def scenarioWorld_def scenarioEnv_def
      mkInitialExtensionStates_def scenarioExt_def)

lemma scenario_in_range: "idx (toEnvExtension scenarioExt) < length (extensions scenarioEnv)"
  by (simp add: scenarioExt_def scenarioEnv_def)

lemma scenario_getState:
  "EnvExtension_getState (toEnvExtension scenarioExt) scenarioEnv = Some scenarioState"
  by (simp add: EnvExtension_getState_def scenarioExt_def scenarioEnv_def)

lemma scenario_getEntries: "PersistentEnvExtension_getEntries scenarioExt scenarioEnv = Some []"
  by (simp add: PersistentEnvExtension_getEntries_def scenario_getState scenarioState_def)

lemma scenario_addEntry:
  "PersistentEnvExtension_addEntry scenarioExt (scenarioEnv\<lparr> extensions := [st] \<rparr>) a
     = scenarioEnv\<lparr> extensions := [addEntryStep scenarioExt a st] \<rparr>"
  by (simp add: addEntry_alt EnvExtension_modifyState_def Array_modify_def scenarioExt_def
      scenarioEnv_def)

lemma scenario_forceState:
  "PersistentEnvExtension_forceState scenarioExt (scenarioEnv\<lparr> extensions := [st] \<rparr>)
     = scenarioEnv\<lparr> extensions := [forceStep scenarioExt st] \<rparr>"
  by (simp add: forceState_alt EnvExtension_modifyState_def Array_modify_def scenarioExt_def
      scenarioEnv_def)

lemma scenarioEnv_extensions: "scenarioEnv = scenarioEnv\<lparr> extensions := [scenarioState] \<rparr>"
  by (simp add: scenarioEnv_def)

subsection \<open>Incremental fold\<close>

text \<open>
  C1.  Let \<open>ext\<close> be a persistent extension with a slot in \<open>env\<close>, holding the
  state \<open>st\<close>, whose cached aggregate, if present, is consistent.  After any
  interleaving \<open>ops\<close> of \<open>addEntry\<close>, \<open>forceState\<close> and \<open>getState\<close>, \<open>getState\<close>
  returns the fold of \<open>addEntryFn\<close> with \<open>isImported = false\<close> over the imported
  aggregate with all current entries, oldest first: those already in \<open>env\<close> (the
  reverse of what \<open>getEntries\<close> returns there) followed by the added ones in the
  order of addition.  Hence any two interleavings that add the same entries give
  the same value, whether the aggregate was forced in between (incremental path)
  or only at the end (full refold).
\<close>

theorem incremental_fold:
  assumes "EnvExtension_getState (toEnvExtension ext) env = Some st"
    and "cachedStateInv ext st"
  shows "PersistentEnvExtension_getState ext (foldl (applyOp ext) env ops)
           = Some (foldEntries ext (Thunk_get (importedState st))
                     (rev (entries st) @ addedEntries ops))
         \<and> PersistentEnvExtension_getEntries ext env = Some (entries st)
         \<and> (\<forall>ops'. addedEntries ops' = addedEntries ops \<longrightarrow>
               PersistentEnvExtension_getState ext (foldl (applyOp ext) env ops')
                 = PersistentEnvExtension_getState ext (foldl (applyOp ext) env ops))"
proof -
  have eq: "PersistentEnvExtension_getState ext (foldl (applyOp ext) env xs)
           = Some (foldEntries ext (Thunk_get (importedState st))
                     (rev (entries st) @ addedEntries xs))" for xs
  proof -
    from run_ops_state[OF assms, of xs] obtain st' where
      "EnvExtension_getState (toEnvExtension ext) (foldl (applyOp ext) env xs) = Some st'"
      "cachedStateInv ext st'" "importedState st' = importedState st"
      "entries st' = rev (addedEntries xs) @ entries st"
      by blast
    then show ?thesis
      by (simp add: PersistentEnvExtension_getState_def forceStateAux_inv)
  qed
  have "PersistentEnvExtension_getEntries ext env = Some (entries st)"
    using assms(1) by (simp add: PersistentEnvExtension_getEntries_def)
  with eq show ?thesis by simp
qed

theorem incremental_fold_witness:
  "EnvExtension_getState (toEnvExtension scenarioExt) scenarioEnv = Some scenarioState
   \<and> cachedStateInv scenarioExt scenarioState
   \<and> PersistentEnvExtension_getState scenarioExt
       (foldl (applyOp scenarioExt) scenarioEnv [OpAddEntry 3, OpForceState, OpGetState, OpAddEntry 4])
       = Some (foldEntries scenarioExt 0 [3, 4])
   \<and> foldEntries scenarioExt 0 [3, 4] = 7
   \<and> PersistentEnvExtension_getEntries scenarioExt scenarioEnv = Some []
   \<and> PersistentEnvExtension_getState scenarioExt
       (foldl (applyOp scenarioExt) scenarioEnv [OpAddEntry 3, OpAddEntry 4])
       = PersistentEnvExtension_getState scenarioExt
           (foldl (applyOp scenarioExt) scenarioEnv
              [OpAddEntry 3, OpForceState, OpGetState, OpAddEntry 4])"
proof -
  have b: "cachedStateInv scenarioExt scenarioState"
    by (simp add: cachedStateInv_def foldEntries_def scenarioState_def
        Thunk_get_def Thunk_pure_def)
  have c: "foldEntries scenarioExt 0 [3, 4] = 7"
    by (simp add: foldEntries_def scenarioExt_def scenarioAdd_def)
  have d: "Thunk_get (importedState scenarioState) = 0" "entries scenarioState = []"
    by (simp_all add: scenarioState_def Thunk_get_def Thunk_pure_def)
  note main = incremental_fold[OF scenario_getState b,
      of "[OpAddEntry 3, OpForceState, OpGetState, OpAddEntry 4]"]
  from main have 1: "PersistentEnvExtension_getState scenarioExt
       (foldl (applyOp scenarioExt) scenarioEnv [OpAddEntry 3, OpForceState, OpGetState, OpAddEntry 4])
       = Some (foldEntries scenarioExt 0 [3, 4])"
    by (simp add: d)
  from main have e: "PersistentEnvExtension_getEntries scenarioExt scenarioEnv = Some []"
    by (simp add: d)
  from main have "addedEntries [OpAddEntry 3, OpAddEntry 4]
        = addedEntries [OpAddEntry 3, OpForceState, OpGetState, OpAddEntry (4 :: nat)]
      \<longrightarrow> PersistentEnvExtension_getState scenarioExt
       (foldl (applyOp scenarioExt) scenarioEnv [OpAddEntry 3, OpAddEntry 4])
       = PersistentEnvExtension_getState scenarioExt
           (foldl (applyOp scenarioExt) scenarioEnv
              [OpAddEntry 3, OpForceState, OpGetState, OpAddEntry 4])"
    by blast
  then have 2: "PersistentEnvExtension_getState scenarioExt
       (foldl (applyOp scenarioExt) scenarioEnv [OpAddEntry 3, OpAddEntry 4])
       = PersistentEnvExtension_getState scenarioExt
           (foldl (applyOp scenarioExt) scenarioEnv
              [OpAddEntry 3, OpForceState, OpGetState, OpAddEntry 4])"
    by simp
  from scenario_getState b 1 c e 2 show ?thesis by blast
qed

subsection \<open>The cached aggregate is an invariant\<close>

lemma World_reachable_inv: "World_reachable w \<Longrightarrow> World_inv w"
proof (induction rule: World_reachable.induct)
  case start
  show ?case by (simp add: World_inv_def)
next
  case (registerRaw w s r w')
  then show ?case
    by (fastforce simp: World_inv_def registerEnvExtensionUnsafe_def Array_push_def Let_def nth_append
        less_Suc_eq split: if_splits)
next
  case (registerPersistent w toString descr r' w')
  have inv: "World_inv w" by fact
  show ?case
  proof (cases "Array_any (persistentEnvExtensionsRef w) (\<lambda>ext. name ext = descr_name descr)")
    case True
    with registerPersistent.hyps(2) have "w' = w"
      by (simp add: registerPersistentEnvExtensionUnsafe_def Let_def)
    with inv show ?thesis by simp
  next
    case False
    show ?thesis
    proof (cases "initializing w")
      case False
      with registerPersistent.hyps(2) \<open>\<not> Array_any _ _\<close> have "w' = w"
        by (simp add: registerPersistentEnvExtensionUnsafe_def registerEnvExtensionUnsafe_def Let_def)
      with inv show ?thesis by simp
    next
      case True
      define s where "s = \<lparr> importedEntries = [],
                importedState = Thunk_pure (descr_initState descr),
                entries = ([] :: 'b list),
                state = Some (descr_initState descr) \<rparr>"
      define e where "e = \<lparr> idx = length (envExtensionsRef w), initial = s \<rparr>"
      define pe where "pe = \<lparr> toEnvExtension = e,
                                name = descr_name descr,
                                someVal = descr_someVal descr,
                                addEntryFn = descr_addEntryFn descr,
                                toArrayFn = descr_toArrayFn descr,
                                lazy = descr_lazy descr \<rparr>"
      from registerPersistent.hyps(2) True \<open>\<not> Array_any _ _\<close>
      have w': "w' = w\<lparr> envExtensionsRef := envExtensionsRef w @ [e],
                        persistentEnvExtensionsRef := persistentEnvExtensionsRef w @ [pe] \<rparr>"
        by (simp add: registerPersistentEnvExtensionUnsafe_def registerEnvExtensionUnsafe_def
            Let_def Array_push_def s_def e_def pe_def)
      have pe_inv: "cachedStateInv pe (initial (toEnvExtension pe))"
        by (simp add: cachedStateInv_def pe_def e_def s_def foldEntries_def Thunk_get_def Thunk_pure_def)
      have old: "\<forall>p \<in> set (persistentEnvExtensionsRef w). idx (toEnvExtension p) < length (envExtensionsRef w)"
        using inv by (simp add: World_inv_def)
      have "idx (toEnvExtension pe) \<notin> (\<lambda>p. idx (toEnvExtension p)) ` set (persistentEnvExtensionsRef w)"
        using old by (auto simp: pe_def e_def)
      then show ?thesis
        using inv pe_inv unfolding w'
        by (auto simp: World_inv_def nth_append pe_def e_def)
    qed
  qed
next
  case (initialized w)
  then show ?case by (simp add: World_inv_def)
qed


lemma Array_iterateAux_preserves:
  assumes "\<And>i x b. P b \<Longrightarrow> P (f i x b)" and "P b"
  shows "P (Array_iterateAux f i xs b)"
  using assms(2)
proof (induction xs arbitrary: i b)
  case Nil
  then show ?case by simp
next
  case (Cons x xs)
  then show ?case by (simp add: assms(1))
qed

lemma modifyState_nth:
  "j < length (extensions env) \<Longrightarrow>
   extensions (EnvExtension_modifyState ext env f) ! j
     = (if j = idx ext then f (extensions env ! j) else extensions env ! j)"
  by (simp add: EnvExtension_modifyState_def Array_modify_def)

lemma iterate_modify_length:
  "length (extensions (Array_iterateAux
      (\<lambda>_ p env. EnvExtension_modifyState (toEnvExtension p) env (g p)) i ps env))
   = length (extensions env)"
  by (rule Array_iterateAux_preserves[where P = "\<lambda>e. length (extensions e) = length (extensions env)"])
    simp_all

lemma iterate_modify_other:
  assumes "j \<notin> (\<lambda>p. idx (toEnvExtension p)) ` set ps" and "j < length (extensions env)"
  shows "extensions (Array_iterateAux
      (\<lambda>_ p env. EnvExtension_modifyState (toEnvExtension p) env (g p)) i ps env) ! j
   = extensions env ! j"
  using assms
proof (induction ps arbitrary: i env)
  case Nil
  then show ?case by simp
next
  case (Cons p ps)
  then show ?case by (simp add: modifyState_nth)
qed

lemma iterate_modify_hit:
  assumes "\<And>s. Q (g q s)" and "q \<in> set ps"
    and "distinct (map (\<lambda>p. idx (toEnvExtension p)) ps)"
    and "idx (toEnvExtension q) < length (extensions env)"
  shows "Q (extensions (Array_iterateAux
      (\<lambda>_ p env. EnvExtension_modifyState (toEnvExtension p) env (g p)) i ps env)
        ! idx (toEnvExtension q))"
  using assms(2-)
proof (induction ps arbitrary: i env)
  case Nil
  then show ?case by simp
next
  case (Cons p ps)
  let ?env1 = "EnvExtension_modifyState (toEnvExtension p) env (g p)"
  have len1: "idx (toEnvExtension q) < length (extensions ?env1)"
    using Cons.prems(3) by simp
  show ?case
  proof (cases "q \<in> set ps")
    case True
    from Cons.IH[OF True _ len1] Cons.prems(2) show ?thesis by simp
  next
    case False
    with Cons.prems(1) have qp: "q = p" by simp
    have notin: "idx (toEnvExtension q) \<notin> (\<lambda>p. idx (toEnvExtension p)) ` set ps"
      using Cons.prems(2) qp by auto
    have "extensions ?env1 ! idx (toEnvExtension q) = g q (extensions env ! idx (toEnvExtension q))"
      using Cons.prems(3) qp by (simp add: modifyState_nth)
    with iterate_modify_other[OF notin len1, of g "Suc i"] assms(1) show ?thesis
      by (simp add: qp)
  qed
qed

lemma setImportedEntries_length:
  "length (extensions (setImportedEntries w env mods)) = length (extensions env)"
  unfolding setImportedEntries_def Let_def Array_iterate_def
  by (rule Array_iterateAux_preserves[where P = "\<lambda>e. length (extensions e) = length (extensions env)"])
    (simp_all add: iterate_modify_length)

lemma finalize_length:
  "length (extensions (finalizePersistentExtensions w env)) = length (extensions env)"
  unfolding finalizePersistentExtensions_def Let_def Array_iterate_def
  by (rule iterate_modify_length)

lemma finalize_inv:
  assumes "q \<in> set (persistentEnvExtensionsRef w)"
    and "distinct (map (\<lambda>p. idx (toEnvExtension p)) (persistentEnvExtensionsRef w))"
    and "idx (toEnvExtension q) < length (extensions env)"
  shows "cachedStateInv q (extensions (finalizePersistentExtensions w env) ! idx (toEnvExtension q))"
  unfolding finalizePersistentExtensions_def Let_def Array_iterate_def
  by (rule iterate_modify_hit[where Q = "cachedStateInv q", OF _ assms])
    (simp add: cachedStateInv_def foldEntries_def)

lemma Env_reachable_inv:
  assumes "World_inv w" and "Env_reachable w env"
  shows "Env_inv w env"
  using assms(2)
proof (induction rule: Env_reachable.induct)
  case (empty t env)
  then have "extensions env = map initial (envExtensionsRef w)"
    by (auto simp: mkEmptyEnvironment_def mkInitialExtensionStates_def Let_def split: if_splits)
  with assms(1) show ?case by (auto simp: Env_inv_def World_inv_def)
next
  case (imported env mods)
  let ?e1 = "setImportedEntries w env mods"
  have len: "length (extensions ?e1) = length (envExtensionsRef w)"
    using imported by (simp add: setImportedEntries_length mkInitialExtensionStates_def)
  show ?case
    unfolding Env_inv_def
  proof (intro conjI ballI)
    show "length (extensions (finalizePersistentExtensions w ?e1)) = length (envExtensionsRef w)"
      using len by (simp add: finalize_length)
  next
    fix p assume p: "p \<in> set (persistentEnvExtensionsRef w)"
    with assms(1) len have "idx (toEnvExtension p) < length (extensions ?e1)"
      by (simp add: World_inv_def)
    with p assms(1) show "cachedStateInv p (extensions (finalizePersistentExtensions w ?e1) ! idx (toEnvExtension p))"
      by (intro finalize_inv) (simp_all add: World_inv_def)
  qed
next
  case (addEntry env ext a)
  have d: "distinct (map (\<lambda>p. idx (toEnvExtension p)) (persistentEnvExtensionsRef w))"
    using assms(1) by (simp add: World_inv_def)
  show ?case
    unfolding Env_inv_def addEntry_alt
  proof (intro conjI ballI)
    show "length (extensions (EnvExtension_modifyState (toEnvExtension ext) env (addEntryStep ext a)))
        = length (envExtensionsRef w)"
      using addEntry.IH by (simp add: Env_inv_def)
  next
    fix p assume p: "p \<in> set (persistentEnvExtensionsRef w)"
    have lt: "idx (toEnvExtension p) < length (extensions env)"
      using p assms(1) addEntry.IH by (simp add: World_inv_def Env_inv_def)
    have invp: "cachedStateInv p (extensions env ! idx (toEnvExtension p))"
      using p addEntry.IH by (simp add: Env_inv_def)
    show "cachedStateInv p (extensions (EnvExtension_modifyState (toEnvExtension ext) env
             (addEntryStep ext a)) ! idx (toEnvExtension p))"
    proof (cases "idx (toEnvExtension p) = idx (toEnvExtension ext)")
      case True
      with d p addEntry.hyps(2) have "p = ext"
        by (meson distinct_map inj_onD)
      with lt invp show ?thesis by (simp add: modifyState_nth addEntryStep_inv)
    next
      case False
      with lt invp show ?thesis by (simp add: modifyState_nth)
    qed
  qed
next
  case (forceState env ext)
  have d: "distinct (map (\<lambda>p. idx (toEnvExtension p)) (persistentEnvExtensionsRef w))"
    using assms(1) by (simp add: World_inv_def)
  show ?case
    unfolding Env_inv_def forceState_alt
  proof (intro conjI ballI)
    show "length (extensions (EnvExtension_modifyState (toEnvExtension ext) env (forceStep ext)))
        = length (envExtensionsRef w)"
      using forceState.IH by (simp add: Env_inv_def)
  next
    fix p assume p: "p \<in> set (persistentEnvExtensionsRef w)"
    have lt: "idx (toEnvExtension p) < length (extensions env)"
      using p assms(1) forceState.IH by (simp add: World_inv_def Env_inv_def)
    have invp: "cachedStateInv p (extensions env ! idx (toEnvExtension p))"
      using p forceState.IH by (simp add: Env_inv_def)
    show "cachedStateInv p (extensions (EnvExtension_modifyState (toEnvExtension ext) env
             (forceStep ext)) ! idx (toEnvExtension p))"
    proof (cases "idx (toEnvExtension p) = idx (toEnvExtension ext)")
      case True
      with d p forceState.hyps(2) have "p = ext"
        by (meson distinct_map inj_onD)
      with lt invp show ?thesis by (simp add: modifyState_nth forceStep_inv)
    next
      case False
      with lt invp show ?thesis by (simp add: modifyState_nth)
    qed
  qed
qed


text \<open>
  C3.  For every registry reachable by registration, every environment reachable
  over it (the empty environment, import finalization, \<open>addEntry\<close>, \<open>forceState\<close>)
  and every registered persistent extension, the extension has a slot in the
  environment, and when the \<open>state\<close> field of that slot is \<open>Some d\<close>, then \<open>d\<close> is the
  fold of the imported aggregate with the reversed \<open>entries\<close> (oldest first) under
  \<open>addEntryFn\<close> with \<open>isImported = false\<close>; and \<open>addEntry\<close> on such a slot prepends
  the entry and keeps the cache present, advanced by one fold step.
\<close>

theorem cachedState_invariant:
  assumes "World_reachable w" and "Env_reachable w env"
    and "ext \<in> set (persistentEnvExtensionsRef w)"
  shows "\<exists>st. EnvExtension_getState (toEnvExtension ext) env = Some st
           \<and> (state st = Some d \<longrightarrow>
                 d = foldEntries ext (Thunk_get (importedState st)) (rev (entries st))
               \<and> EnvExtension_getState (toEnvExtension ext)
                     (PersistentEnvExtension_addEntry ext env a)
                   = Some (st\<lparr> entries := a # entries st,
                               state := Some (addEntryFn ext False d a) \<rparr>))"
proof -
  have winv: "World_inv w" using assms(1) by (rule World_reachable_inv)
  have einv: "Env_inv w env" using winv assms(2) by (rule Env_reachable_inv)
  have lt: "idx (toEnvExtension ext) < length (extensions env)"
    using winv einv assms(3) by (simp add: World_inv_def Env_inv_def)
  define st where "st = extensions env ! idx (toEnvExtension ext)"
  have gs: "EnvExtension_getState (toEnvExtension ext) env = Some st"
    using lt by (simp add: EnvExtension_getState_def st_def)
  have inv: "cachedStateInv ext st"
    using einv assms(3) by (simp add: Env_inv_def st_def)
  have 1: "d = foldEntries ext (Thunk_get (importedState st)) (rev (entries st))"
    if "state st = Some d"
    using inv that by (simp add: cachedStateInv_def)
  have 2: "EnvExtension_getState (toEnvExtension ext) (PersistentEnvExtension_addEntry ext env a)
             = Some (st\<lparr> entries := a # entries st, state := Some (addEntryFn ext False d a) \<rparr>)"
    if "state st = Some d"
    using gs that by (simp add: addEntry_alt getState_modifyState addEntryStep_def)
  from gs 1 2 show ?thesis by blast
qed

theorem cachedState_invariant_witness:
  "World_reachable scenarioWorld
   \<and> Env_reachable scenarioWorld (PersistentEnvExtension_addEntry scenarioExt scenarioEnv 3)
   \<and> scenarioExt \<in> set (persistentEnvExtensionsRef scenarioWorld)
   \<and> EnvExtension_getState (toEnvExtension scenarioExt)
        (PersistentEnvExtension_addEntry scenarioExt scenarioEnv 3)
       = Some (scenarioState\<lparr> entries := [3], state := Some 3 \<rparr>)
   \<and> (3 :: nat) = foldEntries scenarioExt (Thunk_get (importedState scenarioState)) (rev [3])
   \<and> EnvExtension_getState (toEnvExtension scenarioExt)
        (PersistentEnvExtension_addEntry scenarioExt
           (PersistentEnvExtension_addEntry scenarioExt scenarioEnv 3) 4)
       = Some (scenarioState\<lparr> entries := [4, 3], state := Some 7 \<rparr>)"
proof -
  have "World_reachable startWorld"
    unfolding startWorld_def by (rule World_reachable.start)
  then have "World_reachable (scenarioWorld\<lparr> initializing := True \<rparr>)"
    using scenario_registration by (rule World_reachable.registerPersistent)
  then have "World_reachable (scenarioWorld\<lparr> initializing := True \<rparr>\<lparr> initializing := False \<rparr>)"
    by (rule World_reachable.initialized)
  then have w: "World_reachable scenarioWorld"
    by (simp add: scenarioWorld_def)
  have m: "scenarioExt \<in> set (persistentEnvExtensionsRef scenarioWorld)"
    by (simp add: scenarioWorld_def)
  have "Env_reachable scenarioWorld scenarioEnv"
    using scenario_empty_environment by (rule Env_reachable.empty)
  then have e: "Env_reachable scenarioWorld (PersistentEnvExtension_addEntry scenarioExt scenarioEnv 3)"
    using m by (rule Env_reachable.addEntry)
  have st: "EnvExtension_getState (toEnvExtension scenarioExt)
              (PersistentEnvExtension_addEntry scenarioExt scenarioEnv 3)
          = Some (scenarioState\<lparr> entries := [3], state := Some 3 \<rparr>)"
  proof -
    have "EnvExtension_getState (toEnvExtension scenarioExt)
              (PersistentEnvExtension_addEntry scenarioExt scenarioEnv 3)
          = Some (addEntryStep scenarioExt 3 scenarioState)"
      by (simp add: addEntry_alt getState_modifyState scenario_getState)
    then show ?thesis
      by (simp add: addEntryStep_def scenarioState_def scenarioExt_def scenarioAdd_def)
  qed
  have f: "state (scenarioState\<lparr> entries := [3], state := Some 3 \<rparr>) = Some 3"
    "entries (scenarioState\<lparr> entries := [3], state := Some 3 \<rparr>) = [3]"
    "importedState (scenarioState\<lparr> entries := [3], state := Some 3 \<rparr>) = importedState scenarioState"
    "addEntryFn scenarioExt False 3 4 = 7"
    by (simp_all add: scenarioExt_def scenarioAdd_def)
  from cachedState_invariant[OF w e m, of 3 4] st f
  have "(3 :: nat) = foldEntries scenarioExt (Thunk_get (importedState scenarioState)) (rev [3])
     \<and> EnvExtension_getState (toEnvExtension scenarioExt)
        (PersistentEnvExtension_addEntry scenarioExt
           (PersistentEnvExtension_addEntry scenarioExt scenarioEnv 3) 4)
       = Some (scenarioState\<lparr> entries := [4, 3], state := Some 7 \<rparr>)"
    by simp
  with w e m st show ?thesis by blast
qed

subsection \<open>Order of the current entries\<close>

lemma getEntries_addEntry:
  "PersistentEnvExtension_getEntries ext (PersistentEnvExtension_addEntry ext env a)
     = map_option ((#) a) (PersistentEnvExtension_getEntries ext env)"
  by (simp add: PersistentEnvExtension_getEntries_def addEntry_alt getState_modifyState
      split: option.splits)

lemma getEntries_foldl_addEntry:
  "PersistentEnvExtension_getEntries ext (foldl (PersistentEnvExtension_addEntry ext) env es)
     = map_option ((@) (rev es)) (PersistentEnvExtension_getEntries ext env)"
proof (induction es arbitrary: env)
  case Nil
  show ?case by (simp add: option.map_ident)
next
  case (Cons e es)
  show ?case
    by (simp add: Cons.IH getEntries_addEntry option.map_comp comp_def)
qed

text \<open>
  C4 as stated fails: \<open>getEntries\<close> returns the \<open>entries\<close> field as stored, and
  \<open>addEntry\<close> prepends, so after adding \<open>3\<close> and then \<open>4\<close> the result is \<open>[4, 3]\<close>,
  newest first.
\<close>

theorem getEntries_oldest_first_counterexample:
  "PersistentEnvExtension_getEntries scenarioExt
     (PersistentEnvExtension_addEntry scenarioExt
        (PersistentEnvExtension_addEntry scenarioExt scenarioEnv 3) 4) = Some [4, 3]
   \<and> PersistentEnvExtension_getEntries scenarioExt
     (PersistentEnvExtension_addEntry scenarioExt
        (PersistentEnvExtension_addEntry scenarioExt scenarioEnv 3) 4) \<noteq> Some [3, 4]"
  by (simp add: getEntries_addEntry scenario_getEntries)

text \<open>
  C4, amended.  For a persistent extension with a slot in the environment,
  \<open>getEntries\<close> returns the current module's entries in storage order, newest
  first: after adding \<open>es\<close> in order it is \<open>rev es\<close> followed by the entries that
  were there before.  The oldest-first sequence is its reverse.
\<close>

theorem getEntries_newest_first:
  assumes "idx (toEnvExtension ext) < length (extensions env)"
  shows "\<exists>old. PersistentEnvExtension_getEntries ext env = Some old
           \<and> PersistentEnvExtension_getEntries ext
                (foldl (PersistentEnvExtension_addEntry ext) env es) = Some (rev es @ old)
           \<and> map_option rev (PersistentEnvExtension_getEntries ext
                (foldl (PersistentEnvExtension_addEntry ext) env es)) = Some (rev old @ es)"
proof -
  have "PersistentEnvExtension_getEntries ext env
      = Some (entries (extensions env ! idx (toEnvExtension ext)))"
    using assms by (simp add: PersistentEnvExtension_getEntries_def EnvExtension_getState_def)
  then show ?thesis by (simp add: getEntries_foldl_addEntry)
qed

theorem getEntries_newest_first_witness:
  "idx (toEnvExtension scenarioExt) < length (extensions scenarioEnv)
   \<and> PersistentEnvExtension_getEntries scenarioExt scenarioEnv = Some []
   \<and> PersistentEnvExtension_getEntries scenarioExt
       (foldl (PersistentEnvExtension_addEntry scenarioExt) scenarioEnv [1, 2, 3]) = Some [3, 2, 1]
   \<and> map_option rev (PersistentEnvExtension_getEntries scenarioExt
       (foldl (PersistentEnvExtension_addEntry scenarioExt) scenarioEnv [1, 2, 3])) = Some [1, 2, 3]"
proof -
  from getEntries_newest_first[OF scenario_in_range, of "[1, 2, 3]"]
  have "PersistentEnvExtension_getEntries scenarioExt
       (foldl (PersistentEnvExtension_addEntry scenarioExt) scenarioEnv [1, 2, 3]) = Some [3, 2, 1]
   \<and> map_option rev (PersistentEnvExtension_getEntries scenarioExt
       (foldl (PersistentEnvExtension_addEntry scenarioExt) scenarioEnv [1, 2, 3])) = Some [1, 2, 3]"
    by (simp only: scenario_getEntries) simp
  with scenario_in_range scenario_getEntries show ?thesis by blast
qed

subsection \<open>Tolerant lookups\<close>

lemma getEntriesFor_no_match:
  "\<forall>j. i \<le> j \<and> j < length (mod_entries md) \<longrightarrow> fst (mod_entries md ! j) \<noteq> extId
   \<Longrightarrow> getEntriesFor md extId i = []"
proof (induction md extId i rule: getEntriesFor.induct)
  case (1 md extId i)
  show ?case
  proof (cases "i < length (mod_entries md)")
    case True
    with 1 show ?thesis
      by (subst getEntriesFor.simps) (auto simp: Let_def)
  next
    case False
    then show ?thesis by (subst getEntriesFor.simps) simp
  qed
qed

text \<open>
  C9.  For every persistent extension with a slot in the environment
  (\<open>idx < length (extensions env)\<close>, so that the raw \<open>getState\<close> is \<open>Some st\<close>),
  \<open>getModuleEntries\<close> at a module index outside \<open>importedEntries\<close> returns the
  empty sequence; and \<open>getEntriesFor\<close>, started at index \<open>0\<close> as the import does,
  is the empty sequence for a module record with no entries section under the
  extension's name.  Both are plain values: there is no failure to report.
\<close>

theorem tolerant_lookups:
  "(idx (toEnvExtension ext) < length (extensions env)
      \<and> EnvExtension_getState (toEnvExtension ext) env = Some st
      \<and> length (importedEntries st) \<le> m
      \<longrightarrow> PersistentEnvExtension_getModuleEntries ext env m = Some [])
   \<and> (extId \<notin> fst ` set (mod_entries md) \<longrightarrow> getEntriesFor md extId 0 = [])"
proof (intro conjI impI)
  assume "idx (toEnvExtension ext) < length (extensions env)
      \<and> EnvExtension_getState (toEnvExtension ext) env = Some st
      \<and> length (importedEntries st) \<le> m"
  then show "PersistentEnvExtension_getModuleEntries ext env m = Some []"
    by (simp add: PersistentEnvExtension_getModuleEntries_def Array_get_def)
next
  assume "extId \<notin> fst ` set (mod_entries md)"
  then have "\<forall>j. 0 \<le> j \<and> j < length (mod_entries md) \<longrightarrow> fst (mod_entries md ! j) \<noteq> extId"
    by (metis image_eqI nth_mem)
  then show "getEntriesFor md extId 0 = []" by (rule getEntriesFor_no_match)
qed

theorem tolerant_lookups_witness:
  "idx (toEnvExtension scenarioExt) < length (extensions scenarioEnv)
   \<and> EnvExtension_getState (toEnvExtension scenarioExt) scenarioEnv = Some scenarioState
   \<and> length (importedEntries scenarioState) \<le> 5
   \<and> PersistentEnvExtension_getModuleEntries scenarioExt scenarioEnv 5 = Some []
   \<and> name scenarioExt \<notin> fst ` set (mod_entries scenarioModule)
   \<and> getEntriesFor scenarioModule (name scenarioExt) 0 = []"
proof -
  have a: "length (importedEntries scenarioState) \<le> 5"
    by (simp add: scenarioState_def)
  have b: "name scenarioExt \<notin> fst ` set (mod_entries scenarioModule)"
    by (simp add: scenarioExt_def scenarioModule_def)
  from tolerant_lookups[of scenarioExt scenarioEnv scenarioState 5 "name scenarioExt"
      scenarioModule] scenario_in_range scenario_getState a b
  show ?thesis by blast
qed

section \<open>Properties of the registries\<close>

lemma HashMapImp_find_empty: "HashMapImp_find hash (mkHashMapImp 8) k = None"
  by (simp add: HashMapImp_find_def mkHashMapImp_def)

lemma SMap_find_empty: "SMap_find hash lt SMap_empty k = None"
  by (simp add: SMap_find_def SMap_empty_def HashMapImp_find_empty)

text \<open>
  C7.  \<open>mkEmptyEnvironment\<close> fails exactly when the process is in the
  initialization phase, with the error that environments cannot be created
  during initialization.  Otherwise it returns an environment whose declaration
  index and import index are the empty ones (every lookup is \<open>None\<close>), whose
  extension states are the initial states of the registry in slot order, with the
  given trust level, \<open>quotInit = false\<close> and no imports.
\<close>

theorem mkEmptyEnvironment_spec:
  "((\<exists>e. (mkEmptyEnvironment t w
            :: IO_Error + ('n, 'p, ('a, 's) PersistentEnvExtensionState) Environment) = Inl e)
      = initializing w)
   \<and> (case mkEmptyEnvironment t w of
        Inl e \<Rightarrow> e = userError ''Environment objects cannot be created during initialization''
      | Inr (env :: ('n, 'p, ('a, 's) PersistentEnvExtensionState) Environment) \<Rightarrow>
          const2ModIdx env = mkHashMapImp 8
          \<and> Environment_getModuleIdxFor hash env c = None
          \<and> constants env = SMap_empty
          \<and> Environment_find hash lt env n = None
          \<and> extensions env = map initial (envExtensionsRef w)
          \<and> length (extensions env) = length (envExtensionsRef w)
          \<and> trustLevel env = t
          \<and> quotInit env = False
          \<and> env_imports env = [])"
  by (simp add: mkEmptyEnvironment_def mkInitialExtensionStates_def Environment_find_def
      Environment_getModuleIdxFor_def HashMapImp_find_empty SMap_find_empty)

theorem mkEmptyEnvironment_spec_witness:
  "\<not> initializing scenarioWorld
   \<and> (mkEmptyEnvironment 0 scenarioWorld
        :: IO_Error + (nat, nat, (nat, nat) PersistentEnvExtensionState) Environment)
       = Inr scenarioEnv
   \<and> extensions scenarioEnv = map initial (envExtensionsRef scenarioWorld)
   \<and> Environment_find (\<lambda>n. n) (<) scenarioEnv 0 = None
   \<and> initializing startWorld
   \<and> (mkEmptyEnvironment 0 startWorld
        :: IO_Error + (nat, nat, (nat, nat) PersistentEnvExtensionState) Environment)
       = Inl (userError ''Environment objects cannot be created during initialization'')"
proof -
  have a: "\<not> initializing scenarioWorld" by (simp add: scenarioWorld_def)
  have b: "initializing startWorld" by (simp add: startWorld_def)
  from mkEmptyEnvironment_spec[of 0 startWorld "\<lambda>n. n" 0 "(<)" 0, where 'p = nat] b
  have c: "(mkEmptyEnvironment 0 startWorld
        :: IO_Error + (nat, nat, (nat, nat) PersistentEnvExtensionState) Environment)
       = Inl (userError ''Environment objects cannot be created during initialization'')"
    by (auto split: sum.splits)
  from mkEmptyEnvironment_spec[of 0 scenarioWorld "\<lambda>n. n" 0 "(<)" 0, where 'p = nat]
    scenario_empty_environment
  have d: "extensions scenarioEnv = map initial (envExtensionsRef scenarioWorld)
      \<and> Environment_find (\<lambda>n. n) (<) scenarioEnv 0 = None"
    by simp
  from a b c d scenario_empty_environment show ?thesis by blast
qed

text \<open>
  C8 as stated fails in its last part: once the initialization phase is over, a
  registration under a fresh name fails as well, with the error of
  \<open>registerEnvExtension\<close>.
\<close>

theorem register_fresh_name_counterexample:
  "registerPersistentEnvExtensionUnsafe scenarioToString scenarioDescr frozenWorld
     = (Inl (userError
          ''Failed to register environment, extensions can only be registered during initialization''),
        frozenWorld)"
  by (simp add: registerPersistentEnvExtensionUnsafe_def registerEnvExtensionUnsafe_def
      frozenWorld_def scenarioDescr_def Array_any_def Let_def)

text \<open>
  C8, amended.  Registering a persistent extension under the name of a registered
  persistent extension fails with the duplicate-name error and leaves both
  registries as they were.  Under a fresh name the registration succeeds during
  the initialization phase: the extension gets the next slot and is appended to
  both registries.  Under a fresh name after the initialization phase it fails
  with the initialization-order error, the registries unchanged.
\<close>

theorem register_persistent_spec:
  "(descr_name descr \<in> name ` set (persistentEnvExtensionsRef w) \<longrightarrow>
      registerPersistentEnvExtensionUnsafe toString descr w
        = (Inl (duplicateNameError toString (descr_name descr)), w))
   \<and> (descr_name descr \<notin> name ` set (persistentEnvExtensionsRef w) \<and> initializing w \<longrightarrow>
        (\<exists>pExt. registerPersistentEnvExtensionUnsafe toString descr w
            = (Inr pExt,
               w\<lparr> envExtensionsRef := envExtensionsRef w @ [toEnvExtension pExt],
                  persistentEnvExtensionsRef := persistentEnvExtensionsRef w @ [pExt] \<rparr>)
          \<and> name pExt = descr_name descr
          \<and> idx (toEnvExtension pExt) = length (envExtensionsRef w)))
   \<and> (descr_name descr \<notin> name ` set (persistentEnvExtensionsRef w) \<and> \<not> initializing w \<longrightarrow>
        registerPersistentEnvExtensionUnsafe toString descr w
          = (Inl (userError
               ''Failed to register environment, extensions can only be registered during initialization''),
             w))"
proof -
  have any: "Array_any (persistentEnvExtensionsRef w) (\<lambda>ext. name ext = descr_name descr)
      = (descr_name descr \<in> name ` set (persistentEnvExtensionsRef w))"
    by (force simp: Array_any_def list_ex_iff image_iff)
  show ?thesis
    by (auto simp: registerPersistentEnvExtensionUnsafe_def registerEnvExtensionUnsafe_def any
        Let_def duplicateNameError_def Array_push_def)
qed

theorem register_persistent_spec_witness:
  "descr_name scenarioDescr \<in> name ` set (persistentEnvExtensionsRef scenarioWorld)
   \<and> registerPersistentEnvExtensionUnsafe scenarioToString scenarioDescr scenarioWorld
       = (Inl (duplicateNameError scenarioToString (descr_name scenarioDescr)), scenarioWorld)
   \<and> descr_name scenarioDescr \<notin> name ` set (persistentEnvExtensionsRef startWorld)
   \<and> initializing startWorld
   \<and> (\<exists>pExt. registerPersistentEnvExtensionUnsafe scenarioToString scenarioDescr startWorld
         = (Inr pExt,
            startWorld\<lparr> envExtensionsRef := envExtensionsRef startWorld @ [toEnvExtension pExt],
               persistentEnvExtensionsRef := persistentEnvExtensionsRef startWorld @ [pExt] \<rparr>)
       \<and> name pExt = descr_name scenarioDescr
       \<and> idx (toEnvExtension pExt) = length (envExtensionsRef startWorld))
   \<and> descr_name scenarioDescr \<notin> name ` set (persistentEnvExtensionsRef frozenWorld)
   \<and> \<not> initializing frozenWorld
   \<and> registerPersistentEnvExtensionUnsafe scenarioToString scenarioDescr frozenWorld
       = (Inl (userError
            ''Failed to register environment, extensions can only be registered during initialization''),
          frozenWorld)"
proof -
  have a: "descr_name scenarioDescr \<in> name ` set (persistentEnvExtensionsRef scenarioWorld)"
    by (simp add: scenarioDescr_def scenarioWorld_def scenarioExt_def)
  have b: "descr_name scenarioDescr \<notin> name ` set (persistentEnvExtensionsRef startWorld)"
    by (simp add: startWorld_def)
  have c: "initializing startWorld" by (simp add: startWorld_def)
  have d: "descr_name scenarioDescr \<notin> name ` set (persistentEnvExtensionsRef frozenWorld)"
    by (simp add: frozenWorld_def)
  have e: "\<not> initializing frozenWorld" by (simp add: frozenWorld_def)
  from register_persistent_spec[of scenarioDescr scenarioWorld scenarioToString]
    register_persistent_spec[of scenarioDescr startWorld scenarioToString]
    register_persistent_spec[of scenarioDescr frozenWorld scenarioToString]
    a b c d e
  show ?thesis by blast
qed

section \<open>Properties of the declaration index\<close>

subsection \<open>Red-black tree insertion\<close>

lemma RBNode_all_mono:
  "RBNode_all P t \<Longrightarrow> (\<And>x. P x \<Longrightarrow> Q x) \<Longrightarrow> RBNode_all Q t"
  by (induction t) auto

lemma sto_trans: "strictTotalOrder lt \<Longrightarrow> lt a b \<Longrightarrow> lt b c \<Longrightarrow> lt a c"
  unfolding strictTotalOrder_def by blast

lemma sto_irrefl: "strictTotalOrder lt \<Longrightarrow> \<not> lt a a"
  unfolding strictTotalOrder_def by blast

lemma sto_asym: "strictTotalOrder lt \<Longrightarrow> lt a b \<Longrightarrow> \<not> lt b a"
  using sto_trans sto_irrefl by metis

lemma sto_total: "strictTotalOrder lt \<Longrightarrow> \<not> lt a b \<Longrightarrow> \<not> lt b a \<Longrightarrow> a = b"
  unfolding strictTotalOrder_def by blast

lemma all_less_trans:
  "strictTotalOrder lt \<Longrightarrow> RBNode_all (\<lambda>x. lt x a) t \<Longrightarrow> lt a b \<Longrightarrow> RBNode_all (\<lambda>x. lt x b) t"
  by (erule RBNode_all_mono) (erule sto_trans)

lemma all_greater_trans:
  "strictTotalOrder lt \<Longrightarrow> RBNode_all (\<lambda>x. lt a x) t \<Longrightarrow> lt b a \<Longrightarrow> RBNode_all (\<lambda>x. lt b x) t"
  by (erule RBNode_all_mono) (erule sto_trans)


lemma balance1_all:
  "n \<noteq> leaf \<Longrightarrow>
   RBNode_all P (RBNode_balance1 (node c0 a0 kv vv t) n) = (P kv \<and> RBNode_all P t \<and> RBNode_all P n)"
  apply (cases "(node c0 a0 kv vv t, n)" rule: RBNode_balance1.cases)
  apply auto
  done

lemma balance2_all:
  "n \<noteq> leaf \<Longrightarrow>
   RBNode_all P (RBNode_balance2 (node c0 t kv vv b0) n) = (P kv \<and> RBNode_all P t \<and> RBNode_all P n)"
  apply (cases "(node c0 t kv vv b0, n)" rule: RBNode_balance2.cases)
  apply auto
  done

lemma ins_not_leaf: "RBNode_ins lt t k v \<noteq> leaf"
proof (induction lt t k v rule: RBNode_ins.induct)
  case (1 lt kx vx)
  show ?case by simp
next
  case (2 lt a ky vy b kx vx)
  show ?case by simp
next
  case (3 lt a ky vy b kx vx)
  have b1: "RBNode_balance1 (node black leaf ky vy b) n \<noteq> leaf" if "n \<noteq> leaf" for n
    using that by (cases "(node black leaf ky vy b, n)" rule: RBNode_balance1.cases) auto
  have b2: "RBNode_balance2 (node black a ky vy leaf) n \<noteq> leaf" if "n \<noteq> leaf" for n
    using that by (cases "(node black a ky vy leaf, n)" rule: RBNode_balance2.cases) auto
  show ?case using 3 by (auto simp: b1 b2)
qed

lemma ins_all:
  "P k \<Longrightarrow> RBNode_all P t \<Longrightarrow> RBNode_all P (RBNode_ins lt t k v)"
  by (induction lt t k v rule: RBNode_ins.induct)
    (auto simp: balance1_all balance2_all ins_not_leaf)

lemma balance1_ordered:
  assumes "strictTotalOrder lt" and "n \<noteq> leaf"
    and "RBNode_ordered lt n" and "RBNode_ordered lt t"
    and "RBNode_all (\<lambda>x. lt x kv) n" and "RBNode_all (\<lambda>x. lt kv x) t"
  shows "RBNode_ordered lt (RBNode_balance1 (node c0 a0 kv vv t) n)"
  using assms
  apply (cases "(node c0 a0 kv vv t, n)" rule: RBNode_balance1.cases)
  apply (auto intro: all_greater_trans all_less_trans)
  apply (blast intro: sto_trans)+
  done

lemma balance2_ordered:
  assumes "strictTotalOrder lt" and "n \<noteq> leaf"
    and "RBNode_ordered lt n" and "RBNode_ordered lt t"
    and "RBNode_all (\<lambda>x. lt kv x) n" and "RBNode_all (\<lambda>x. lt x kv) t"
  shows "RBNode_ordered lt (RBNode_balance2 (node c0 t kv vv b0) n)"
  using assms
  apply (cases "(node c0 t kv vv b0, n)" rule: RBNode_balance2.cases)
  apply (auto intro: all_greater_trans all_less_trans)
  done


lemma ins_ordered:
  "strictTotalOrder lt \<Longrightarrow> RBNode_ordered lt t \<Longrightarrow> RBNode_ordered lt (RBNode_ins lt t k v)"
proof (induction lt t k v rule: RBNode_ins.induct)
  case (1 lt kx vx)
  show ?case by simp
next
  case (2 lt a ky vy b kx vx)
  show ?case
  proof (cases "lt kx ky")
    case True
    with 2 show ?thesis by (simp add: ins_all)
  next
    case False
    show ?thesis
    proof (cases "lt ky kx")
      case True
      with False 2 show ?thesis by (simp add: ins_all)
    next
      case nlt: False
      with False 2(3) have "kx = ky" by (simp add: sto_total)
      with False nlt 2 show ?thesis by simp
    qed
  qed
next
  case (3 lt a ky vy b kx vx)
  show ?case
  proof (cases "lt kx ky")
    case True
    with 3 show ?thesis
      by (auto simp: ins_all ins_not_leaf intro!: balance1_ordered)
  next
    case False
    show ?thesis
    proof (cases "lt ky kx")
      case True
      with False 3 show ?thesis
        by (auto simp: ins_all ins_not_leaf intro!: balance2_ordered)
    next
      case nlt: False
      with False 3(5) have "kx = ky" by (simp add: sto_total)
      with False nlt 3 show ?thesis by simp
    qed
  qed
qed

lemma balance1_find:
  assumes "strictTotalOrder lt" and "n \<noteq> leaf"
    and "RBNode_ordered lt n" and "RBNode_all (\<lambda>x. lt x kv) n"
  shows "RBNode_find lt (RBNode_balance1 (node c0 a0 kv vv t) n) x
         = RBNode_find lt (node black n kv vv t) x"
  using assms
  apply (cases "(node c0 a0 kv vv t, n)" rule: RBNode_balance1.cases)
  apply (auto dest: sto_trans sto_total sto_asym)
  done

lemma balance2_find:
  assumes "strictTotalOrder lt" and "n \<noteq> leaf"
    and "RBNode_ordered lt n" and "RBNode_all (\<lambda>x. lt kv x) n"
  shows "RBNode_find lt (RBNode_balance2 (node c0 t kv vv b0) n) x
         = RBNode_find lt (node black t kv vv n) x"
  using assms
  apply (cases "(node c0 t kv vv b0, n)" rule: RBNode_balance2.cases)
  apply (auto dest: sto_trans sto_total sto_asym)
  done


lemma ins_find_same:
  "strictTotalOrder lt \<Longrightarrow> RBNode_ordered lt t \<Longrightarrow>
   RBNode_find lt (RBNode_ins lt t k v) k = Some v"
proof (induction lt t k v rule: RBNode_ins.induct)
  case (1 lt kx vx)
  then show ?case by (simp add: sto_irrefl)
next
  case (2 lt a ky vy b kx vx)
  then show ?case by (auto simp: sto_irrefl dest: sto_asym)
next
  case (3 lt a ky vy b kx vx)
  have sto: "strictTotalOrder lt" by fact
  have ord: "RBNode_ordered lt a" "RBNode_ordered lt b"
    "RBNode_all (\<lambda>x. lt x ky) a" "RBNode_all (\<lambda>x. lt ky x) b"
    using 3(6) by simp_all
  show ?case
  proof (cases "lt kx ky")
    case True
    have ih: "RBNode_find lt (RBNode_ins lt a kx vx) kx = Some vx"
      using 3 True ord by (cases "RBNode_isRed a") simp_all
    have "RBNode_find lt (RBNode_balance1 (node black leaf ky vy b) (RBNode_ins lt a kx vx)) kx
        = RBNode_find lt (node black (RBNode_ins lt a kx vx) ky vy b) kx"
      using sto ord True by (intro balance1_find) (simp_all add: ins_not_leaf ins_ordered ins_all)
    with True ih show ?thesis by simp
  next
    case False
    show ?thesis
    proof (cases "lt ky kx")
      case True
      have ih: "RBNode_find lt (RBNode_ins lt b kx vx) kx = Some vx"
        using 3 True False ord by (cases "RBNode_isRed b") simp_all
      have "RBNode_find lt (RBNode_balance2 (node black a ky vy leaf) (RBNode_ins lt b kx vx)) kx
          = RBNode_find lt (node black a ky vy (RBNode_ins lt b kx vx)) kx"
        using sto ord True by (intro balance2_find) (simp_all add: ins_not_leaf ins_ordered ins_all)
      with True False ih show ?thesis by simp
    next
      case nlt: False
      with False sto show ?thesis by (simp add: sto_irrefl)
    qed
  qed
qed

lemma setBlack_ordered: "RBNode_ordered lt (RBNode_setBlack t) = RBNode_ordered lt t"
  by (cases t) simp_all

lemma setBlack_find: "RBNode_find lt (RBNode_setBlack t) x = RBNode_find lt t x"
  by (cases t) simp_all

lemma insert_ordered:
  "strictTotalOrder lt \<Longrightarrow> RBNode_ordered lt t \<Longrightarrow> RBNode_ordered lt (RBNode_insert lt t k v)"
  by (simp add: RBNode_insert_def setBlack_ordered ins_ordered)

lemma insert_find_same:
  "strictTotalOrder lt \<Longrightarrow> RBNode_ordered lt t \<Longrightarrow>
   RBNode_find lt (RBNode_insert lt t k v) k = Some v"
  by (simp add: RBNode_insert_def setBlack_find ins_find_same)


subsection \<open>Hash map insertion\<close>

lemma AssocList_find_replace:
  "AssocList_contains a es \<Longrightarrow> AssocList_find a (AssocList_replace a b es) = Some b"
  by (induction es) auto

lemma AssocList_contains_replace:
  "AssocList_contains a es \<Longrightarrow> AssocList_contains a (AssocList_replace a b es)"
  by (induction es) auto

lemma reinsert_length [simp]:
  "length (AssocList_foldl_reinsert hash target es) = length target"
  by (induction es arbitrary: target) (auto simp: Let_def)

lemma reinsert_keeps:
  "0 < length target \<Longrightarrow> AssocList_contains k (target ! (hash k mod length target)) \<Longrightarrow>
   AssocList_contains k (AssocList_foldl_reinsert hash target es ! (hash k mod length target))"
proof (induction es arbitrary: target)
  case Nil
  then show ?case by simp
next
  case (Cons e es)
  obtain k' v' where e: "e = (k', v')" by (cases e)
  let ?i = "hash k' mod length target"
  let ?t = "target[?i := (k', v') # (target ! ?i)]"
  have "AssocList_contains k (?t ! (hash k mod length ?t))"
    using Cons.prems by (cases "?i = hash k mod length target") (auto simp: nth_list_update)
  with Cons.IH[of ?t] Cons.prems(1) show ?case by (simp add: e Let_def)
qed

lemma reinsert_adds:
  "0 < length target \<Longrightarrow> AssocList_contains k es \<Longrightarrow>
   AssocList_contains k (AssocList_foldl_reinsert hash target es ! (hash k mod length target))"
proof (induction es arbitrary: target)
  case Nil
  then show ?case by simp
next
  case (Cons e es)
  obtain k' v' where e: "e = (k', v')" by (cases e)
  let ?i = "hash k' mod length target"
  let ?t = "target[?i := (k', v') # (target ! ?i)]"
  show ?case
  proof (cases "k' = k")
    case True
    have "AssocList_contains k (?t ! (hash k mod length ?t))"
      using Cons.prems(1) True by simp
    with reinsert_keeps[where target = ?t and k = k and hash = hash and es = es] Cons.prems(1)
    show ?thesis by (simp add: e Let_def)
  next
    case False
    with Cons.prems e have "AssocList_contains k es" by simp
    with Cons.IH[of ?t] Cons.prems(1) show ?thesis by (simp add: e Let_def)
  qed
qed

lemma moveEntries_length [simp]:
  "length (HashMapImp_moveEntries hash i source target) = length target"
  by (induction hash i source target rule: HashMapImp_moveEntries.induct)
    (subst HashMapImp_moveEntries.simps, simp add: Let_def)

lemma moveEntries_keeps:
  "0 < length target \<Longrightarrow> AssocList_contains k (target ! (hash k mod length target)) \<Longrightarrow>
   AssocList_contains k (HashMapImp_moveEntries hash i source target ! (hash k mod length target))"
proof (induction hash i source target rule: HashMapImp_moveEntries.induct)
  case (1 hash i source target)
  show ?case
  proof (cases "i < length source")
    case True
    let ?t = "AssocList_foldl_reinsert hash target (source ! i)"
    have "AssocList_contains k (?t ! (hash k mod length ?t))"
      using reinsert_keeps[where target = target and k = k and hash = hash and es = "source ! i"]
        1(2) 1(3) by simp
    with 1(1)[OF True refl refl refl] 1(2) True show ?thesis
      by (subst HashMapImp_moveEntries.simps) (simp add: Let_def)
  next
    case False
    with 1 show ?thesis by (subst HashMapImp_moveEntries.simps) simp
  qed
qed

lemma moveEntries_adds:
  "0 < length target \<Longrightarrow> i \<le> j \<Longrightarrow> j < length source \<Longrightarrow> AssocList_contains k (source ! j) \<Longrightarrow>
   AssocList_contains k (HashMapImp_moveEntries hash i source target ! (hash k mod length target))"
proof (induction hash i source target rule: HashMapImp_moveEntries.induct)
  case (1 hash i source target)
  have lt: "i < length source" using 1(3,4) by simp
  let ?t = "AssocList_foldl_reinsert hash target (source ! i)"
  let ?s = "source[i := []]"
  have unfold: "HashMapImp_moveEntries hash i source target
      = HashMapImp_moveEntries hash (i + 1) ?s ?t"
    using lt by (subst HashMapImp_moveEntries.simps) (simp add: Let_def)
  show ?case
  proof (cases "j = i")
    case True
    have "AssocList_contains k (?t ! (hash k mod length ?t))"
      using reinsert_adds[where target = target and k = k and hash = hash and es = "source ! i"]
        1(2) 1(5) True by simp
    with moveEntries_keeps[where target = ?t and k = k and hash = hash and i = "i + 1"
        and source = ?s] 1(2)
    show ?thesis by (simp add: unfold)
  next
    case False
    with 1(3) have "i + 1 \<le> j" by simp
    moreover have "j < length ?s" using 1(4) by simp
    moreover have "AssocList_contains k (?s ! j)" using False 1(5) by simp
    ultimately show ?thesis
      using 1(1)[OF lt refl refl refl] 1(2) by (simp add: unfold)
  qed
qed

lemma HashMapImp_insert_contains:
  assumes "0 < length (buckets m)"
  shows "0 < length (buckets (HashMapImp_insert hash m k v))
    \<and> AssocList_contains k (buckets (HashMapImp_insert hash m k v)
          ! (hash k mod length (buckets (HashMapImp_insert hash m k v))))"
proof -
  let ?i = "hash k mod length (buckets m)"
  have i: "?i < length (buckets m)" using assms by simp
  show ?thesis
  proof (cases "AssocList_contains k (buckets m ! ?i)")
    case True
    with i assms show ?thesis
      by (simp add: HashMapImp_insert_def Let_def AssocList_contains_replace)
  next
    case False
    show ?thesis
    proof (cases "hsize m + 1 \<le> length (buckets m)")
      case True
      with False i assms show ?thesis
        by (simp add: HashMapImp_insert_def Let_def)
    next
      case nofit: False
      let ?b = "(buckets m)[?i := (k, v) # (buckets m ! ?i)]"
      have "AssocList_contains k (?b ! ?i)" using i by simp
      with moveEntries_adds[where target = "replicate (length ?b * 2) []" and i = 0 and j = ?i
          and source = ?b and k = k and hash = hash] i assms
      show ?thesis
        using False nofit
        by (simp add: HashMapImp_insert_def Let_def HashMapImp_expand_def)
    qed
  qed
qed

lemma HashMapImp_insert_find_contained:
  assumes "0 < length (buckets m)"
    and "AssocList_contains k (buckets m ! (hash k mod length (buckets m)))"
  shows "HashMapImp_find hash (HashMapImp_insert hash m k v) k = Some v"
  using assms
  by (simp add: HashMapImp_insert_def HashMapImp_find_def Let_def AssocList_find_replace)

lemma HashMapImp_insert_twice:
  assumes "0 < length (buckets m)"
  shows "HashMapImp_find hash (HashMapImp_insert hash (HashMapImp_insert hash m k v1) k v2) k = Some v2"
  using HashMapImp_insert_contains[OF assms, of hash k v1]
  by (intro HashMapImp_insert_find_contained) simp_all


subsection \<open>Last write wins\<close>

lemma SMap_insert_twice:
  assumes "strictTotalOrder lt"
    and "0 < length (buckets (map1 m))"
    and "RBNode_ordered lt (map2 m)"
  shows "SMap_find hash lt (SMap_insert hash lt (SMap_insert hash lt m k v1) k v2) k = Some v2"
proof (cases "stage1 m")
  case True
  with assms(2) show ?thesis
    by (simp add: SMap_find_def SMap_insert_def HashMapImp_insert_twice)
next
  case False
  have "RBNode_ordered lt (RBNode_insert lt (map2 m) k v1)"
    using assms(1,3) by (rule insert_ordered)
  with assms(1) have "RBNode_find lt (RBNode_insert lt (RBNode_insert lt (map2 m) k v1) k v2) k = Some v2"
    by (rule insert_find_same)
  with False show ?thesis
    by (simp add: SMap_find_def SMap_insert_def)
qed

text \<open>
  C5.  For every environment \<open>e\<close> with a well-formed declaration index (the hash
  map has at least one bucket and the tree is a search tree for the key order,
  which is a strict total order) and declarations \<open>declA1\<close>, \<open>declA2\<close> of the
  same name \<open>A\<close>: \<open>find (add (add e declA1) declA2) A\<close> is \<open>declA2\<close>.  \<open>add\<close> is
  a total function into environments, so the collision is no error.
\<close>

theorem last_write_wins:
  assumes "strictTotalOrder lt"
    and "0 < length (buckets (map1 (constants e)))"
    and "RBNode_ordered lt (map2 (constants e))"
    and "ConstantInfo_name declA1 = A" and "ConstantInfo_name declA2 = A"
  shows "Environment_find hash lt
           (Environment_add hash lt (Environment_add hash lt e declA1) declA2) A = Some declA2"
  using SMap_insert_twice[OF assms(1-3), of hash A declA1 declA2] assms(4,5)
  by (simp add: Environment_find_def Environment_add_def)

lemma nat_less_strictTotalOrder: "strictTotalOrder ((<) :: nat \<Rightarrow> nat \<Rightarrow> bool)"
  by (auto simp: strictTotalOrder_def)

theorem last_write_wins_witness:
  "strictTotalOrder ((<) :: nat \<Rightarrow> nat \<Rightarrow> bool)
   \<and> 0 < length (buckets (map1 (constants scenarioEnv)))
   \<and> RBNode_ordered (<) (map2 (constants scenarioEnv))
   \<and> ConstantInfo_name declA1 = 5 \<and> ConstantInfo_name declA2 = 5
   \<and> declA1 \<noteq> declA2
   \<and> Environment_find id (<)
        (Environment_add id (<) (Environment_add id (<) scenarioEnv declA1) declA2) 5 = Some declA2
   \<and> Environment_find id (<)
        (Environment_add id (<) (Environment_add id (<) (Environment_switch scenarioEnv) declA1) declA2) 5
       = Some declA2"
proof -
  have a: "0 < length (buckets (map1 (constants scenarioEnv)))"
    by (simp add: scenarioEnv_def SMap_empty_def mkHashMapImp_def)
  have b: "RBNode_ordered (<) (map2 (constants scenarioEnv))"
    by (simp add: scenarioEnv_def SMap_empty_def)
  have a': "0 < length (buckets (map1 (constants (Environment_switch scenarioEnv))))"
    by (simp add: Environment_switch_def SMap_switch_def scenarioEnv_def SMap_empty_def mkHashMapImp_def)
  have b': "RBNode_ordered (<) (map2 (constants (Environment_switch scenarioEnv)))"
    by (simp add: Environment_switch_def SMap_switch_def scenarioEnv_def SMap_empty_def)
  have c: "ConstantInfo_name declA1 = 5" "ConstantInfo_name declA2 = 5" "declA1 \<noteq> declA2"
    by (simp_all add: declA1_def declA2_def)
  from last_write_wins[OF nat_less_strictTotalOrder a b c(1,2), of id]
    last_write_wins[OF nat_less_strictTotalOrder a' b' c(1,2), of id]
    nat_less_strictTotalOrder a b c
  show ?thesis by blast
qed

section \<open>Properties of the import\<close>

subsection \<open>One call of \<open>importModulesAux\<close>\<close>

lemma importModulesAux_Nil: "importModulesAux F R [] r = Some (Inr r)"
  by (subst importModulesAux.simps) simp

lemma importModulesAux_visited:
  "m \<in> s \<Longrightarrow> importModulesAux F R (m # ms) (s, mods) = importModulesAux F R ms (s, mods)"
  by (subst importModulesAux.simps) simp

lemma importModulesAux_fail:
  "m \<notin> s \<Longrightarrow> loadModule F R m = Inl e \<Longrightarrow> importModulesAux F R (m # ms) (s, mods) = Some (Inl e)"
  by (subst importModulesAux.simps) (auto simp: loadModule_def split: sum.splits)

lemma importModulesAux_load:
  "m \<notin> s \<Longrightarrow> loadModule F R m = Inr md \<Longrightarrow>
   importModulesAux F R (m # ms) (s, mods) =
     Option.bind (importModulesAux F R (mod_imports md) (insert m s, mods))
       (\<lambda>res. case res of
                 Inl e \<Rightarrow> Some (Inl e)
               | Inr (s'', mods') \<Rightarrow> importModulesAux F R ms (s'', mods' @ [md]))"
  by (subst importModulesAux.simps) (auto simp: loadModule_def Array_push_def split: sum.splits)


lemma importEdges_I:
  "loadModule F R m = Inr md \<Longrightarrow> d \<in> set (mod_imports md) \<Longrightarrow> (m, d) \<in> importEdges F R"
  by (auto simp: importEdges_def)

lemma moduleOf_eq: "loadModule F R m = Inr md \<Longrightarrow> moduleOf F R m = md"
  by (simp add: moduleOf_def)

lemma reach_inside:
  assumes closed: "\<And>m md. m \<in> V \<Longrightarrow> loadModule F R m = Inr md \<Longrightarrow> set (mod_imports md) \<subseteq> V"
    and "(a, b) \<in> (importEdges F R)\<^sup>*" and "a \<in> V"
  shows "b \<in> V \<and> (a, b) \<in> (importEdges F R \<inter> V \<times> V)\<^sup>*"
  using assms(2,3)
proof (induction rule: rtrancl_induct)
  case base
  then show ?case by simp
next
  case (step y z)
  then have y: "y \<in> V" and ay: "(a, y) \<in> (importEdges F R \<inter> V \<times> V)\<^sup>*" by simp_all
  from step.hyps(2) obtain md where "loadModule F R y = Inr md" "z \<in> set (mod_imports md)"
    by (auto simp: importEdges_def)
  with closed[OF y] have z: "z \<in> V" by auto
  with y step.hyps(2) have "(y, z) \<in> importEdges F R \<inter> V \<times> V" by simp
  with ay z show ?case by (auto intro: rtrancl_into_rtrancl)
qed

lemma no_back_edge:
  assumes closed: "\<And>m md. m \<in> V \<Longrightarrow> loadModule F R m = Inr md \<Longrightarrow> set (mod_imports md) \<subseteq> V"
    and acyc: "acyclic (importEdges F R \<inter> V \<times> V)"
    and m: "m \<in> V" and x: "(m, x) \<in> (importEdges F R)\<^sup>*"
    and lx: "loadModule F R x = Inr mdx"
  shows "m \<notin> set (mod_imports mdx)"
proof
  assume "m \<in> set (mod_imports mdx)"
  with lx have e: "(x, m) \<in> importEdges F R" by (rule importEdges_I)
  from reach_inside[OF closed x m] have xV: "x \<in> V"
    and mx: "(m, x) \<in> (importEdges F R \<inter> V \<times> V)\<^sup>*" by simp_all
  from e xV m have "(x, m) \<in> importEdges F R \<inter> V \<times> V" by simp
  with mx have "(m, m) \<in> (importEdges F R \<inter> V \<times> V)\<^sup>+" by (rule rtrancl_into_trancl1)
  with acyc show False by (simp add: acyclic_def)
qed

lemma importPost_Nil: "importPost F R V [] s []"
  by (simp add: importPost_def)

lemma importPost_visited:
  "m \<in> s \<Longrightarrow> importPost F R V ms s new \<Longrightarrow> importPost F R V (m # ms) s new"
  unfolding importPost_def
  by (auto intro: rev_ImageI)


lemma importPost_compose:
  assumes closed: "\<And>m md. m \<in> V \<Longrightarrow> loadModule F R m = Inr md \<Longrightarrow> set (mod_imports md) \<subseteq> V"
    and mV: "m \<in> V" and ms: "m \<notin> s" and lm: "loadModule F R m = Inr md"
    and p1: "importPost F R V (mod_imports md) (insert m s) new1"
    and p2: "importPost F R V ms (insert m s \<union> set new1) new2"
  shows "importPost F R V (m # ms) s (new1 @ m # new2)"
proof -
  let ?E = "importEdges F R"
  let ?new = "new1 @ m # new2"
  from p1 have d1: "distinct new1" and i1: "set new1 \<inter> insert m s = {}"
    and c1: "set (mod_imports md) \<subseteq> insert m s \<union> set new1"
    and r1: "set new1 \<subseteq> ?E\<^sup>* `` set (mod_imports md)"
    and l1: "\<forall>x \<in> set new1. \<exists>mdx. loadModule F R x = Inr mdx
               \<and> set (mod_imports mdx) \<subseteq> insert m s \<union> set new1"
    and t1: "acyclic (?E \<inter> V \<times> V) \<longrightarrow>
           (\<forall>i < length new1. set (mod_imports (moduleOf F R (new1 ! i)))
              \<subseteq> insert m s \<union> set (take i new1))"
    by (simp_all add: importPost_def)
  from p2 have d2: "distinct new2" and i2: "set new2 \<inter> (insert m s \<union> set new1) = {}"
    and c2: "set ms \<subseteq> insert m s \<union> set new1 \<union> set new2"
    and r2: "set new2 \<subseteq> ?E\<^sup>* `` set ms"
    and l2: "\<forall>x \<in> set new2. \<exists>mdx. loadModule F R x = Inr mdx
               \<and> set (mod_imports mdx) \<subseteq> insert m s \<union> set new1 \<union> set new2"
    and t2: "acyclic (?E \<inter> V \<times> V) \<longrightarrow>
           (\<forall>i < length new2. set (mod_imports (moduleOf F R (new2 ! i)))
              \<subseteq> insert m s \<union> set new1 \<union> set (take i new2))"
    by (simp_all add: importPost_def)
  have reach1: "(m, x) \<in> ?E\<^sup>*" if "x \<in> set new1" for x
  proof -
    from that r1 obtain d where d: "d \<in> set (mod_imports md)" "(d, x) \<in> ?E\<^sup>*" by auto
    from lm d(1) have "(m, d) \<in> ?E" by (rule importEdges_I)
    then show ?thesis using d(2) by (rule converse_rtrancl_into_rtrancl)
  qed
  have A: "distinct ?new" using d1 d2 i1 i2 by auto
  have B: "set ?new \<inter> s = {}" using i1 i2 ms by auto
  have C: "set (m # ms) \<subseteq> s \<union> set ?new" using c2 by auto
  have D: "set ?new \<subseteq> ?E\<^sup>* `` set (m # ms)"
  proof
    fix x assume "x \<in> set ?new"
    then consider "x \<in> set new1" | "x = m" | "x \<in> set new2" by auto
    then show "x \<in> ?E\<^sup>* `` set (m # ms)"
    proof cases
      case 1
      from reach1[OF 1] show ?thesis by auto
    next
      case 2
      then show ?thesis by auto
    next
      case 3
      with r2 show ?thesis by auto
    qed
  qed
  have E: "\<forall>x \<in> set ?new. \<exists>mdx. loadModule F R x = Inr mdx
               \<and> set (mod_imports mdx) \<subseteq> s \<union> set ?new"
  proof
    fix x assume "x \<in> set ?new"
    then consider "x \<in> set new1" | "x = m" | "x \<in> set new2" by auto
    then show "\<exists>mdx. loadModule F R x = Inr mdx \<and> set (mod_imports mdx) \<subseteq> s \<union> set ?new"
    proof cases
      case 1
      with l1 obtain mdx where "loadModule F R x = Inr mdx"
        "set (mod_imports mdx) \<subseteq> insert m s \<union> set new1" by blast
      then show ?thesis by auto
    next
      case 2
      with lm c1 show ?thesis by auto
    next
      case 3
      with l2 obtain mdx where "loadModule F R x = Inr mdx"
        "set (mod_imports mdx) \<subseteq> insert m s \<union> set new1 \<union> set new2" by blast
      then show ?thesis by auto
    qed
  qed
  have T: "\<forall>i < length ?new. set (mod_imports (moduleOf F R (?new ! i))) \<subseteq> s \<union> set (take i ?new)"
    if acyc: "acyclic (?E \<inter> V \<times> V)"
  proof (intro allI impI)
    fix i assume i: "i < length ?new"
    consider "i < length new1" | "i = length new1" | "length new1 < i" by linarith
    then show "set (mod_imports (moduleOf F R (?new ! i))) \<subseteq> s \<union> set (take i ?new)"
    proof cases
      case 1
      let ?x = "new1 ! i"
      have x: "?x \<in> set new1" using 1 by simp
      with l1 obtain mdx where lx: "loadModule F R ?x = Inr mdx" by blast
      have "m \<notin> set (mod_imports mdx)"
        using closed acyc mV reach1[OF x] lx by (rule no_back_edge)
      moreover have "set (mod_imports mdx) \<subseteq> insert m s \<union> set (take i new1)"
      proof -
        from t1 acyc 1 have "set (mod_imports (moduleOf F R ?x))
              \<subseteq> insert m s \<union> set (take i new1)" by blast
        then show ?thesis by (simp add: moduleOf_eq[OF lx])
      qed
      ultimately have "set (mod_imports mdx) \<subseteq> s \<union> set (take i new1)" by auto
      with 1 lx show ?thesis by (simp add: nth_append moduleOf_eq)
    next
      case 2
      have mm: "(m, m) \<in> ?E\<^sup>*" by (rule rtrancl_refl)
      have "m \<notin> set (mod_imports md)"
        using closed acyc mV mm lm by (rule no_back_edge)
      with c1 have "set (mod_imports md) \<subseteq> s \<union> set new1" by auto
      with 2 lm show ?thesis by (simp add: nth_append moduleOf_eq)
    next
      case 3
      define j where "j = i - length new1 - 1"
      have j: "j < length new2" and ij: "i = length new1 + Suc j" using 3 i by (auto simp: j_def)
      have nth: "?new ! i = new2 ! j" by (simp add: ij nth_append)
      have tk: "take i ?new = new1 @ m # take j new2" by (simp add: ij)
      from t2 acyc j have "set (mod_imports (moduleOf F R (new2 ! j)))
              \<subseteq> insert m s \<union> set new1 \<union> set (take j new2)" by blast
      then show ?thesis unfolding nth tk by auto
    qed
  qed
  from A B C D E T show ?thesis unfolding importPost_def by blast
qed


lemma importRun_visited:
  assumes "m \<in> s" and "importRun F R V ms s mods"
  shows "importRun F R V (m # ms) s mods"
proof -
  have eq: "importModulesAux F R (m # ms) (s, mods) = importModulesAux F R ms (s, mods)"
    using assms(1) by (rule importModulesAux_visited)
  have sub: "(importEdges F R)\<^sup>* `` set ms \<subseteq> (importEdges F R)\<^sup>* `` set (m # ms)"
    by auto
  from assms(2) show ?thesis
    unfolding importRun_def eq
    using sub importPost_visited[OF assms(1)] by blast
qed

lemma importRun_fail:
  assumes "m \<notin> s" and "loadModule F R m = Inl e"
  shows "importRun F R V (m # ms) s mods"
proof -
  have "importModulesAux F R (m # ms) (s, mods) = Some (Inl e)"
    using assms by (rule importModulesAux_fail)
  moreover have "m \<in> (importEdges F R)\<^sup>* `` set (m # ms)" by auto
  ultimately show ?thesis unfolding importRun_def using assms(2) by blast
qed

lemma importRun_load:
  assumes closed: "\<And>m md. m \<in> V \<Longrightarrow> loadModule F R m = Inr md \<Longrightarrow> set (mod_imports md) \<subseteq> V"
    and mV: "m \<in> V" and ms: "m \<notin> s" and lm: "loadModule F R m = Inr md"
    and inner: "importRun F R V (mod_imports md) (insert m s) mods"
    and outer: "\<And>new1. importPost F R V (mod_imports md) (insert m s) new1 \<Longrightarrow>
        importRun F R V ms (insert m s \<union> set new1) (mods @ map (moduleOf F R) new1 @ [md])"
  shows "importRun F R V (m # ms) s mods"
proof -
  let ?E = "importEdges F R"
  note unf = importModulesAux_load[OF ms lm, of ms mods]
  have up: "?E\<^sup>* `` set (mod_imports md) \<subseteq> ?E\<^sup>* `` set (m # ms)"
  proof
    fix x assume "x \<in> ?E\<^sup>* `` set (mod_imports md)"
    then obtain d where d: "d \<in> set (mod_imports md)" "(d, x) \<in> ?E\<^sup>*" by auto
    from lm d(1) have "(m, d) \<in> ?E" by (rule importEdges_I)
    then have "(m, x) \<in> ?E\<^sup>*" using d(2) by (rule converse_rtrancl_into_rtrancl)
    then show "x \<in> ?E\<^sup>* `` set (m # ms)" by auto
  qed
  have up2: "?E\<^sup>* `` set ms \<subseteq> ?E\<^sup>* `` set (m # ms)" by auto
  from inner consider
    (err) e m' where "importModulesAux F R (mod_imports md) (insert m s, mods) = Some (Inl e)"
      "m' \<in> ?E\<^sup>* `` set (mod_imports md)" "loadModule F R m' = Inl e"
  | (ok) new1 where "importModulesAux F R (mod_imports md) (insert m s, mods)
        = Some (Inr (insert m s \<union> set new1, mods @ map (moduleOf F R) new1))"
      "importPost F R V (mod_imports md) (insert m s) new1"
    unfolding importRun_def by blast
  then show ?thesis
  proof cases
    case err
    have "importModulesAux F R (m # ms) (s, mods) = Some (Inl e)"
      by (simp add: unf err(1))
    moreover have "m' \<in> ?E\<^sup>* `` set (m # ms)" using err(2) up by blast
    ultimately show ?thesis unfolding importRun_def using err(3) by blast
  next
    case ok
    let ?s1 = "insert m s \<union> set new1"
    let ?mods1 = "mods @ map (moduleOf F R) new1 @ [md]"
    have step: "importModulesAux F R (m # ms) (s, mods) = importModulesAux F R ms (?s1, ?mods1)"
      by (simp add: unf ok(1))
    from outer[OF ok(2)] consider
      (err2) e m' where "importModulesAux F R ms (?s1, ?mods1) = Some (Inl e)"
        "m' \<in> ?E\<^sup>* `` set ms" "loadModule F R m' = Inl e"
    | (ok2) new2 where "importModulesAux F R ms (?s1, ?mods1)
          = Some (Inr (?s1 \<union> set new2, ?mods1 @ map (moduleOf F R) new2))"
        "importPost F R V ms ?s1 new2"
      unfolding importRun_def by blast
    then show ?thesis
    proof cases
      case err2
      have "importModulesAux F R (m # ms) (s, mods) = Some (Inl e)"
        by (simp only: step err2(1))
      moreover have "m' \<in> ?E\<^sup>* `` set (m # ms)" using err2(2) up2 by blast
      ultimately show ?thesis unfolding importRun_def using err2(3) by blast
    next
      case ok2
      let ?new = "new1 @ m # new2"
      have s_eq: "?s1 \<union> set new2 = s \<union> set ?new" by auto
      have m_eq: "?mods1 @ map (moduleOf F R) new2 = mods @ map (moduleOf F R) ?new"
        by (simp add: moduleOf_eq[OF lm])
      have "importModulesAux F R (m # ms) (s, mods)
          = Some (Inr (s \<union> set ?new, mods @ map (moduleOf F R) ?new))"
        by (simp only: step ok2(1) s_eq m_eq)
      moreover have "importPost F R V (m # ms) s ?new"
        using closed mV ms lm ok(2) ok2(2) by (rule importPost_compose)
      ultimately show ?thesis unfolding importRun_def by blast
    qed
  qed
qed

lemma importModulesAux_run:
  assumes fin: "finite V"
    and closed: "\<And>m md. m \<in> V \<Longrightarrow> loadModule F R m = Inr md \<Longrightarrow> set (mod_imports md) \<subseteq> V"
  shows "card (V - s) = n \<Longrightarrow> set ms \<subseteq> V \<Longrightarrow> importRun F R V ms s mods"
proof (induction n arbitrary: ms s mods rule: less_induct)
  case (less n ms s mods)
  note outerIH = less.IH
  note cardn = less.prems(1)
  from less.prems(2) show ?case
  proof (induction ms)
    case Nil
    show ?case
      unfolding importRun_def
      using importModulesAux_Nil[of F R "(s, mods)"] importPost_Nil[of F R V s]
      by (intro disjI2 exI[of _ "[]"]) simp
  next
    case (Cons m ms)
    then have mV: "m \<in> V" and msV: "set ms \<subseteq> V" by simp_all
    from Cons.IH[OF msV] have ih: "importRun F R V ms s mods" .
    show ?case
    proof (cases "m \<in> s")
      case True
      then show ?thesis using ih by (rule importRun_visited)
    next
      case False
      show ?thesis
      proof (cases "loadModule F R m")
        case (Inl e)
        with False show ?thesis by (rule importRun_fail)
      next
        case (Inr md)
        have impV: "set (mod_imports md) \<subseteq> V" using mV Inr by (rule closed)
        have "V - insert m s \<subset> V - s" using mV False by auto
        with fin have card1: "card (V - insert m s) < n"
          unfolding cardn[symmetric] by (intro psubset_card_mono) simp_all
        have inner: "importRun F R V (mod_imports md) (insert m s) mods"
          using outerIH[OF card1 refl impV] .
        have outer: "importRun F R V ms (insert m s \<union> set new1) (mods @ map (moduleOf F R) new1 @ [md])"
          for new1
        proof -
          have "V - (insert m s \<union> set new1) \<subseteq> V - insert m s" by auto
          with fin have "card (V - (insert m s \<union> set new1)) \<le> card (V - insert m s)"
            by (intro card_mono) simp_all
          with card1 have "card (V - (insert m s \<union> set new1)) < n" by simp
          from outerIH[OF this refl msV] show ?thesis .
        qed
        show ?thesis
          using closed mV False Inr inner outer by (rule importRun_load)
      qed
    qed
  qed
qed

lemma importClosure_closed:
  "m \<in> importClosure F R roots \<Longrightarrow> loadModule F R m = Inr md \<Longrightarrow>
   set (mod_imports md) \<subseteq> importClosure F R roots"
proof
  fix d assume m: "m \<in> importClosure F R roots" and l: "loadModule F R m = Inr md"
    and d: "d \<in> set (mod_imports md)"
  from l d have "(m, d) \<in> importEdges F R" by (rule importEdges_I)
  with m show "d \<in> importClosure F R roots"
    unfolding importClosure_def by (auto intro: rtrancl_into_rtrancl)
qed

lemma importClosure_roots: "set roots \<subseteq> importClosure F R roots"
  unfolding importClosure_def by auto

lemma importModulesAux_top:
  assumes "finite (importClosure F R roots)"
  shows "importRun F R (importClosure F R roots) roots {} []"
  using assms importClosure_closed
  by (rule importModulesAux_run[where n = "card (importClosure F R roots - {})"])
    (simp_all add: importClosure_roots)

lemma importPost_closure:
  assumes "importPost F R V roots {} new"
  shows "set new = importClosure F R roots"
proof
  from assms show "set new \<subseteq> importClosure F R roots"
    by (simp add: importPost_def importClosure_def)
next
  from assms have roots: "set roots \<subseteq> set new"
    and cl: "\<forall>x \<in> set new. \<exists>md. loadModule F R x = Inr md \<and> set (mod_imports md) \<subseteq> set new"
    by (simp_all add: importPost_def)
  show "importClosure F R roots \<subseteq> set new"
  proof
    fix x assume "x \<in> importClosure F R roots"
    then obtain r where r: "r \<in> set roots" and rx: "(r, x) \<in> (importEdges F R)\<^sup>*"
      by (auto simp: importClosure_def)
    from rx show "x \<in> set new"
    proof (induction rule: rtrancl_induct)
      case base
      with r roots show ?case by auto
    next
      case (step y z)
      from step.hyps(2) obtain md where l: "loadModule F R y = Inr md" and z: "z \<in> set (mod_imports md)"
        by (auto simp: importEdges_def)
      from cl step.IH obtain md' where "loadModule F R y = Inr md'" "set (mod_imports md') \<subseteq> set new"
        by blast
      with l z show ?case by auto
    qed
  qed
qed

lemma diamond_load:
  "loadModule diamondFind diamondRead m =
     (if m = 2 \<or> m = 3 then Inr (diamondModule [4])
      else if m = 4 then Inr (diamondModule [])
      else Inl (userError ''cannot read module data''))"
  by (simp add: loadModule_def diamondFind_def diamondRead_def)


lemma diamond_edges: "importEdges diamondFind diamondRead = {(2, 4), (3, 4)}"
  by (auto simp: importEdges_def diamond_load diamondModule_def split: if_splits)


lemma diamond_rtrancl:
  "(a, b) \<in> {(2 :: nat, 4 :: nat), (3, 4)}\<^sup>* \<Longrightarrow> b = a \<or> b = 4"
  by (induction rule: rtrancl_induct) auto

lemma diamond_closure_set: "{(2 :: nat, 4 :: nat), (3, 4)}\<^sup>* `` {2, 3} = {2, 3, 4}"
proof
  show "{(2 :: nat, 4 :: nat), (3, 4)}\<^sup>* `` {2, 3} \<subseteq> {2, 3, 4}"
    using diamond_rtrancl by fastforce
  have "(2 :: nat, 4 :: nat) \<in> {(2, 4), (3, 4)}\<^sup>*" by (rule r_into_rtrancl) simp
  then show "{2, 3, 4} \<subseteq> {(2 :: nat, 4 :: nat), (3, 4)}\<^sup>* `` {2, 3}" by auto
qed

lemma diamond_closure: "importClosure diamondFind diamondRead [2, 3] = {2, 3, 4}"
  using diamond_closure_set by (simp add: importClosure_def diamond_edges)


lemma diamond_acyclic:
  "acyclic (importEdges diamondFind diamondRead
      \<inter> importClosure diamondFind diamondRead [2, 3] \<times> importClosure diamondFind diamondRead [2, 3])"
proof -
  have "acyclic (less_than :: (nat \<times> nat) set)" by (rule wf_acyclic) (rule wf_less_than)
  moreover have "importEdges diamondFind diamondRead
      \<inter> importClosure diamondFind diamondRead [2, 3] \<times> importClosure diamondFind diamondRead [2, 3]
      \<subseteq> less_than"
    by (auto simp: diamond_edges)
  ultimately show ?thesis by (rule acyclic_subset)
qed

lemma diamond_run:
  "importModulesAux diamondFind diamondRead [2, 3] ({}, [])
     = Some (Inr ({2, 3, 4}, [diamondModule [], diamondModule [4], diamondModule [4]]))"
proof -
  have l2: "loadModule diamondFind diamondRead 2 = Inr (diamondModule [4])"
    and l3: "loadModule diamondFind diamondRead 3 = Inr (diamondModule [4])"
    and l4: "loadModule diamondFind diamondRead 4 = Inr (diamondModule [])"
    by (simp_all add: diamond_load)
  have i4: "mod_imports (diamondModule [4]) = [4]" and i0: "mod_imports (diamondModule []) = []"
    by (simp_all add: diamondModule_def)
  have s: "insert 3 (insert 4 {2 :: nat}) = {2, 3, 4}" by auto
  have "importModulesAux diamondFind diamondRead [2, 3] ({}, [])
     = Some (Inr (insert 3 (insert 4 {2}), [diamondModule [], diamondModule [4], diamondModule [4]]))"
    by (simp add: importModulesAux_load[OF _ l2] importModulesAux_load[OF _ l3]
        importModulesAux_load[OF _ l4] importModulesAux_visited importModulesAux_Nil i4 i0)
  then show ?thesis by (simp only: s)
qed

subsection \<open>Import order\<close>

text \<open>
  C2.  When the transitive import closure of the roots is finite and each of its
  modules resolves and reads, \<open>importModulesAux\<close>, started as \<open>importModules\<close>
  starts it, returns the modules of a list of names in which every name of the
  closure occurs exactly once, and nothing else; and when the import graph on the
  closure is acyclic, every import of a module stands before the module in that
  list.
\<close>

theorem importModulesAux_topological:
  assumes fin: "finite (importClosure F R roots)"
    and ok: "\<forall>m \<in> importClosure F R roots. \<exists>md. loadModule F R m = Inr md"
  shows "\<exists>names. importModulesAux F R roots ({}, [])
                   = Some (Inr (set names, map (moduleOf F R) names))
           \<and> distinct names
           \<and> set names = importClosure F R roots
           \<and> (acyclic (importEdges F R
                    \<inter> importClosure F R roots \<times> importClosure F R roots) \<longrightarrow>
                (\<forall>i < length names. \<forall>d \<in> set (mod_imports (moduleOf F R (names ! i))).
                   \<exists>j < i. names ! j = d))"
proof -
  let ?V = "importClosure F R roots"
  from importModulesAux_top[OF fin] consider
    (err) e m where "importModulesAux F R roots ({}, []) = Some (Inl e)"
      "m \<in> (importEdges F R)\<^sup>* `` set roots" "loadModule F R m = Inl e"
  | (ok) new where "importModulesAux F R roots ({}, [])
        = Some (Inr ({} \<union> set new, [] @ map (moduleOf F R) new))"
      "importPost F R ?V roots {} new"
    unfolding importRun_def by blast
  then show ?thesis
  proof cases
    case err
    from err(2) have "m \<in> ?V" by (simp add: importClosure_def)
    with ok err(3) show ?thesis by auto
  next
    case ok
    have cl: "set new = ?V" using ok(2) by (rule importPost_closure)
    from ok(2) have d: "distinct new"
      and topo: "acyclic (importEdges F R \<inter> ?V \<times> ?V) \<longrightarrow>
        (\<forall>i < length new. set (mod_imports (moduleOf F R (new ! i))) \<subseteq> set (take i new))"
      by (simp_all add: importPost_def)
    have "\<exists>j < i. new ! j = d"
      if "acyclic (importEdges F R \<inter> ?V \<times> ?V)"
        and "i < length new" and "d \<in> set (mod_imports (moduleOf F R (new ! i)))" for i d
    proof -
      from topo that have "d \<in> set (take i new)" by blast
      then obtain j where "j < length (take i new)" "take i new ! j = d"
        by (auto simp: in_set_conv_nth)
      then show ?thesis by auto
    qed
    with ok(1) d cl show ?thesis by (intro exI[of _ new]) auto
  qed
qed

theorem importModulesAux_topological_witness:
  "finite (importClosure diamondFind diamondRead [2, 3])
   \<and> importClosure diamondFind diamondRead [2, 3] = {2, 3, 4}
   \<and> acyclic (importEdges diamondFind diamondRead
        \<inter> importClosure diamondFind diamondRead [2, 3] \<times> importClosure diamondFind diamondRead [2, 3])
   \<and> (\<exists>names. importModulesAux diamondFind diamondRead [2, 3] ({}, [])
                   = Some (Inr (set names, map (moduleOf diamondFind diamondRead) names))
           \<and> distinct names
           \<and> set names = {2, 3, 4}
           \<and> (\<forall>i < length names.
                 \<forall>d \<in> set (mod_imports (moduleOf diamondFind diamondRead (names ! i))).
                 \<exists>j < i. names ! j = d))
   \<and> importModulesAux diamondFind diamondRead [2, 3] ({}, [])
       = Some (Inr ({2, 3, 4}, map (moduleOf diamondFind diamondRead) [4, 2, 3]))"
proof -
  have fin: "finite (importClosure diamondFind diamondRead [2, 3])"
    by (simp add: diamond_closure)
  have ok: "\<forall>m \<in> importClosure diamondFind diamondRead [2, 3].
      \<exists>md. loadModule diamondFind diamondRead m = Inr md"
    by (simp add: diamond_closure diamond_load)
  have run: "importModulesAux diamondFind diamondRead [2, 3] ({}, [])
       = Some (Inr ({2, 3, 4}, map (moduleOf diamondFind diamondRead) [4, 2, 3]))"
    by (simp add: diamond_run moduleOf_def diamond_load)
  from importModulesAux_topological[OF fin ok] diamond_acyclic
  have "\<exists>names. importModulesAux diamondFind diamondRead [2, 3] ({}, [])
                   = Some (Inr (set names, map (moduleOf diamondFind diamondRead) names))
           \<and> distinct names
           \<and> set names = {2, 3, 4}
           \<and> (\<forall>i < length names.
                 \<forall>d \<in> set (mod_imports (moduleOf diamondFind diamondRead (names ! i))).
                 \<exists>j < i. names ! j = d)"
    by (simp add: diamond_closure)
  with fin diamond_acyclic run diamond_closure show ?thesis by blast
qed

subsection \<open>Import failure\<close>







end
